theory Spec2Isabelle
  imports Main
begin

section \<open>Physical tile addressing (libarchfpga, physical_types_util.cpp)\<close>

text \<open>
  A shallow embedding of the pin and class address translators of
  \<^verbatim>\<open>physical_types_util.cpp\<close>. C++ \<^verbatim>\<open>int\<close> values are modelled as
  unbounded \<^typ>\<open>int\<close> (signed overflow is undefined behaviour in C++ and none of the
  properties below depends on it); container sizes are \<^typ>\<open>nat\<close>. Every
  \<^verbatim>\<open>archfpga_throw\<close>, every \<^verbatim>\<open>VTR_ASSERT\<close>, every \<^verbatim>\<open>.at()\<close> on a missing key and
  every undefined operation (division by zero, out-of-bounds read, null dereference) is a
  branch of the model that returns an error value.
\<close>

subsection \<open>Errors\<close>

datatype arch_error =
    Could_Not_Infer_Pin_Instance string int
      \<comment> \<open>get_pin_index_for_inst: tile name, pin index\<close>
  | No_Sub_Tile_Contains_Pin int string
      \<comment> \<open>get_capacity_location_from_physical_pin: pin, tile name\<close>
  | No_Sub_Tile_Contains_Capacity int int string
      \<comment> \<open>get_physical_pin_from_capacity_location: relative pin, capacity location, tile name\<close>
  | No_Direct_Pin int string string
      \<comment> \<open>get_sub_tile_physical_pin: logical pin, tile name, logical block name\<close>
  | No_Logical_Block_Instance string string
      \<comment> \<open>get_logical_block_physical_sub_tile_index: logical block name, tile name\<close>
  | No_Physical_Pin int
      \<comment> \<open>get_physical_pin: logical pin\<close>

datatype error =
    Arch_Fatal arch_error  \<comment> \<open>archfpga_throw\<close>
  | Assertion_Failed       \<comment> \<open>VTR_ASSERT\<close>
  | Out_Of_Range           \<comment> \<open>std::out_of_range from .at()\<close>
  | Undefined_Behaviour    \<comment> \<open>division by zero, out-of-bounds read, null dereference\<close>

definition bind_res :: "error + 'a \<Rightarrow> ('a \<Rightarrow> error + 'b) \<Rightarrow> error + 'b" where
  "bind_res r f = (case r of Inl e \<Rightarrow> Inl e | Inr v \<Rightarrow> f v)"

text \<open>Modelled from the spec: \<^verbatim>\<open>VTR_ASSERT\<close> (vtr_assert.h is not among the sources) is a
  programming-contract check that aborts the computation when its condition is false.\<close>

definition VTR_ASSERT :: "bool \<Rightarrow> error + 'a \<Rightarrow> error + 'a" where
  "VTR_ASSERT c k = (if c then k else Inl Assertion_Failed)"

text \<open>C++ integer division truncates towards zero and the remainder takes the sign of the
  dividend; a zero divisor is undefined.\<close>

definition c_quot :: "int \<Rightarrow> int \<Rightarrow> int" where
  "c_quot a b = sgn a * sgn b * (\<bar>a\<bar> div \<bar>b\<bar>)"

definition c_div :: "int \<Rightarrow> int \<Rightarrow> error + int" where
  "c_div a b = (if b = 0 then Inl Undefined_Behaviour else Inr (c_quot a b))"

definition c_mod :: "int \<Rightarrow> int \<Rightarrow> error + int" where
  "c_mod a b = (if b = 0 then Inl Undefined_Behaviour else Inr (a - b * c_quot a b))"

text \<open>Reading a \<^verbatim>\<open>std::vector\<close> with \<^verbatim>\<open>operator[]\<close>: outside the bounds the read is
  undefined.\<close>

definition vec_read :: "'a list \<Rightarrow> int \<Rightarrow> error + 'a" where
  "vec_read xs i =
     (if 0 \<le> i \<and> i < int (length xs) then Inr (xs ! nat i) else Inl Undefined_Behaviour)"

subsection \<open>Type descriptors\<close>

text \<open>Modelled from the spec: \<^verbatim>\<open>OPEN\<close> (declared in a header that is not among the
  sources) is the explicit unresolved value of an index field; it is the integer
  \<open>-1\<close>, which is no index.\<close>

definition OPEN :: int where
  "OPEN = -1"

datatype e_pin_type = OPEN_PIN | DRIVER | RECEIVER

record t_class =
  class_type :: e_pin_type
  class_num_pins :: int
  pinlist :: "int list"

record t_capacity_range =
  low :: int
  high :: int

text \<open>Modelled from the spec: \<^verbatim>\<open>capacity.total()\<close> (physical_types.h is not among the
  sources) is the instance count \<^verbatim>\<open>high - low + 1\<close> of the capacity range
  \<^verbatim>\<open>[low, high]\<close>.\<close>

definition total_capacity :: "t_capacity_range \<Rightarrow> int" where
  "total_capacity c = high c - low c + 1"

text \<open>Modelled from the spec: \<^verbatim>\<open>capacity.is_in_range(loc)\<close> (physical_types.h is not
  among the sources) holds when the location lies in \<^verbatim>\<open>[low, high]\<close>.\<close>

definition is_in_range :: "t_capacity_range \<Rightarrow> int \<Rightarrow> bool" where
  "is_in_range c loc = (low c \<le> loc \<and> loc \<le> high c)"

record t_physical_tile_port =
  p_name :: string
  p_index :: int
  absolute_first_pin_index :: int
  p_num_pins :: int

text \<open>A logical block type. Blocks are referred to by pointer in the source; the registry
  holds one object per \<open>lb_index\<close>, so pointer equality is equality of the descriptors.
  \<open>pb_type_num_pins\<close> is \<^verbatim>\<open>pb_type->num_pins\<close>, \<open>pb_pin_idx_bimap_size\<close> is
  \<^verbatim>\<open>pb_pin_idx_bimap.size()\<close>.\<close>

record t_logical_block_type =
  lb_name :: string
  lb_index :: int
  pb_type_num_pins :: int
  pb_pin_idx_bimap_size :: nat
  primitive_class_inf :: "t_class list"

record t_sub_tile =
  st_index :: int
  capacity :: t_capacity_range
  num_phy_pins :: int
  equivalent_sites :: "t_logical_block_type list"
  ports :: "t_physical_tile_port list"
  sub_tile_to_tile_pin_indices :: "int list"

text \<open>\<open>tile_block_pin_directs_map\<close> is keyed by logical block index, then sub-tile index,
  and yields the map from logical pin to sub-tile-local physical pin.\<close>

record t_physical_tile_type =
  tile_name :: string
  tile_num_pins :: int
  sub_tiles :: "t_sub_tile list"
  pin_class :: "int list"
  class_inf :: "t_class list"
  tile_block_pin_directs_map :: "int \<rightharpoonup> (int \<rightharpoonup> (int \<rightharpoonup> int))"

subsection \<open>Root-level pin location\<close>

text \<open>The loop of \<^verbatim>\<open>get_pin_index_for_inst\<close> over the sub-tiles, with its two running
  sums; falling out of the loop reaches the \<^verbatim>\<open>archfpga_throw\<close>.\<close>

fun pin_index_for_inst_loop ::
  "string \<Rightarrow> int \<Rightarrow> t_sub_tile list \<Rightarrow> int \<Rightarrow> int \<Rightarrow> error + (int \<times> int \<times> int)" where
  "pin_index_for_inst_loop nm pin_index [] total_pin_counts pin_offset =
     Inl (Arch_Fatal (Could_Not_Infer_Pin_Instance nm pin_index))"
| "pin_index_for_inst_loop nm pin_index (sub_tile # rest) total_pin_counts pin_offset =
     (if pin_index < total_pin_counts + num_phy_pins sub_tile then
        bind_res (c_div (num_phy_pins sub_tile) (total_capacity (capacity sub_tile))) (\<lambda>pins_per_inst.
        bind_res (c_div (pin_index - pin_offset) pins_per_inst) (\<lambda>inst_num.
        bind_res (c_mod (pin_index - pin_offset) pins_per_inst) (\<lambda>inst_index.
        Inr (inst_index, inst_num, st_index sub_tile))))
      else pin_index_for_inst_loop nm pin_index rest
             (total_pin_counts + num_phy_pins sub_tile) (pin_offset + num_phy_pins sub_tile))"

definition get_pin_index_for_inst ::
  "t_physical_tile_type \<Rightarrow> int \<Rightarrow> error + (int \<times> int \<times> int)" where
  "get_pin_index_for_inst type pin_index =
     VTR_ASSERT (pin_index < tile_num_pins type)
       (pin_index_for_inst_loop (tile_name type) pin_index (sub_tiles type) 0 0)"

subsection \<open>Port resolution and pin names\<close>

record t_pin_inst_port =
  sub_tile_index :: int
  capacity_instance :: int
  port_index :: int
  pin_index_in_port :: int

text \<open>The scan over the ports of a sub-tile: the first port whose half-open range
  contains the pin fills the two port fields; without a match the record is unchanged.\<close>

fun pin_inst_port_loop ::
  "t_physical_tile_port list \<Rightarrow> int \<Rightarrow> t_pin_inst_port \<Rightarrow> t_pin_inst_port" where
  "pin_inst_port_loop [] pin_index pin_inst_port = pin_inst_port"
| "pin_inst_port_loop (port # rest) pin_index pin_inst_port =
     (if pin_index \<ge> absolute_first_pin_index port
         \<and> pin_index < absolute_first_pin_index port + p_num_pins port
      then pin_inst_port\<lparr>port_index := p_index port,
             pin_index_in_port := pin_index - absolute_first_pin_index port\<rparr>
      else pin_inst_port_loop rest pin_index pin_inst_port)"

definition block_type_pin_index_to_pin_inst ::
  "t_physical_tile_type \<Rightarrow> int \<Rightarrow> error + t_pin_inst_port" where
  "block_type_pin_index_to_pin_inst type pin_index =
     bind_res (get_pin_index_for_inst type pin_index) (\<lambda>(pin_index', inst_num, sub_tile_idx).
     bind_res (vec_read (sub_tiles type) sub_tile_idx) (\<lambda>sub_tile.
     Inr (pin_inst_port_loop (ports sub_tile) pin_index'
            \<lparr>sub_tile_index = sub_tile_idx, capacity_instance = inst_num,
             port_index = OPEN, pin_index_in_port = OPEN\<rparr>)))"

text \<open>\<^verbatim>\<open>std::to_string\<close> on an \<^verbatim>\<open>int\<close>: decimal digits, with a minus sign for negative
  values.\<close>

fun nat_to_string :: "nat \<Rightarrow> string" where
  "nat_to_string n =
     (if n < 10 then [''0123456789'' ! n]
      else nat_to_string (n div 10) @ [''0123456789'' ! (n mod 10)])"

definition to_string :: "int \<Rightarrow> string" where
  "to_string i = (if i < 0 then CHR ''-'' # nat_to_string (nat (- i)) else nat_to_string (nat i))"

fun pin_name_port_loop :: "t_physical_tile_port list \<Rightarrow> int \<Rightarrow> string \<Rightarrow> string" where
  "pin_name_port_loop [] pin_index pin_name = ''<UNKOWN>''"
| "pin_name_port_loop (port # rest) pin_index pin_name =
     (if pin_index \<ge> absolute_first_pin_index port
         \<and> pin_index < absolute_first_pin_index port + p_num_pins port
      then pin_name @ p_name port
             @ ''['' @ to_string (pin_index - absolute_first_pin_index port) @ '']''
      else pin_name_port_loop rest pin_index pin_name)"

definition block_type_pin_index_to_name :: "t_physical_tile_type \<Rightarrow> int \<Rightarrow> error + string" where
  "block_type_pin_index_to_name type pin_index =
     VTR_ASSERT (pin_index < tile_num_pins type)
      (bind_res (get_pin_index_for_inst type pin_index) (\<lambda>(pin_index', inst_num, sub_tile_idx).
       bind_res (vec_read (sub_tiles type) sub_tile_idx) (\<lambda>sub_tile.
       Inr (pin_name_port_loop (ports sub_tile) pin_index'
              ((if total_capacity (capacity sub_tile) > 1
                then tile_name type @ ''['' @ to_string inst_num @ '']''
                else tile_name type) @ ''.'')))))"

subsection \<open>Capacity-location translation\<close>

fun capacity_location_loop ::
  "string \<Rightarrow> int \<Rightarrow> t_sub_tile list \<Rightarrow> int \<Rightarrow> error + (int \<times> int)" where
  "capacity_location_loop nm pin [] pins_to_remove =
     Inl (Arch_Fatal (No_Sub_Tile_Contains_Pin pin nm))"
| "capacity_location_loop nm pin (sub_tile # rest) pins_to_remove =
     (let sub_tile_num_pins = num_phy_pins sub_tile;
          sub_tile_pin = pin - pins_to_remove
      in if sub_tile_pin < sub_tile_num_pins then
           bind_res (c_div sub_tile_num_pins (total_capacity (capacity sub_tile))) (\<lambda>per_inst.
           bind_res (c_div sub_tile_pin per_inst) (\<lambda>rel_capacity.
           bind_res (c_mod sub_tile_pin per_inst) (\<lambda>rel_pin.
           Inr (rel_capacity + low (capacity sub_tile), rel_pin))))
         else capacity_location_loop nm pin rest (pins_to_remove + sub_tile_num_pins))"

definition get_capacity_location_from_physical_pin ::
  "t_physical_tile_type \<Rightarrow> int \<Rightarrow> error + (int \<times> int)" where
  "get_capacity_location_from_physical_pin physical_tile pin =
     capacity_location_loop (tile_name physical_tile) pin (sub_tiles physical_tile) 0"

fun physical_pin_loop ::
  "string \<Rightarrow> int \<Rightarrow> int \<Rightarrow> t_sub_tile list \<Rightarrow> int \<Rightarrow> error + int" where
  "physical_pin_loop nm relative_pin capacity_location [] pins_to_add =
     Inl (Arch_Fatal (No_Sub_Tile_Contains_Capacity relative_pin capacity_location nm))"
| "physical_pin_loop nm relative_pin capacity_location (sub_tile # rest) pins_to_add =
     (let rel_capacity = capacity_location - low (capacity sub_tile)
      in bind_res (c_div (num_phy_pins sub_tile) (total_capacity (capacity sub_tile))) (\<lambda>num_inst_pins.
         if is_in_range (capacity sub_tile) capacity_location
         then Inr (pins_to_add + num_inst_pins * rel_capacity + relative_pin)
         else physical_pin_loop nm relative_pin capacity_location rest
                (pins_to_add + num_phy_pins sub_tile)))"

definition get_physical_pin_from_capacity_location ::
  "t_physical_tile_type \<Rightarrow> int \<Rightarrow> int \<Rightarrow> error + int" where
  "get_physical_pin_from_capacity_location physical_tile relative_pin capacity_location =
     physical_pin_loop (tile_name physical_tile) relative_pin capacity_location
       (sub_tiles physical_tile) 0"

subsection \<open>Pin direction\<close>

definition is_opin :: "int \<Rightarrow> t_physical_tile_type \<Rightarrow> error + bool" where
  "is_opin ipin type =
     (if ipin > tile_num_pins type then Inr False
      else bind_res (vec_read (pin_class type) ipin) (\<lambda>iclass.
           bind_res (vec_read (class_inf type) iclass) (\<lambda>c.
           Inr (class_type c = DRIVER))))"

subsection \<open>Logical block to sub-tile, and logical pin to physical pin\<close>

definition get_sub_tile_physical_pin ::
  "int \<Rightarrow> t_physical_tile_type \<Rightarrow> t_logical_block_type \<Rightarrow> int \<Rightarrow> error + int" where
  "get_sub_tile_physical_pin sub_tile_idx physical_tile logical_block pin =
     (case tile_block_pin_directs_map physical_tile (lb_index logical_block) of
        None \<Rightarrow> Inl Out_Of_Range
      | Some by_sub_tile \<Rightarrow>
          (case by_sub_tile sub_tile_idx of
             None \<Rightarrow> Inl Out_Of_Range
           | Some direct_map \<Rightarrow>
               (case direct_map pin of
                  None \<Rightarrow> Inl (Arch_Fatal (No_Direct_Pin pin (tile_name physical_tile)
                                             (lb_name logical_block)))
                | Some physical_pin \<Rightarrow> Inr physical_pin)))"

text \<open>The two-argument overload: the loop has no \<^verbatim>\<open>break\<close>, every match overwrites the
  index.\<close>

fun sub_tile_index_loop :: "t_logical_block_type \<Rightarrow> t_sub_tile list \<Rightarrow> int \<Rightarrow> int" where
  "sub_tile_index_loop logical_block [] idx = idx"
| "sub_tile_index_loop logical_block (sub_tile # rest) idx =
     sub_tile_index_loop logical_block rest
       (if logical_block \<in> set (equivalent_sites sub_tile) then st_index sub_tile else idx)"

definition get_logical_block_physical_sub_tile_index ::
  "t_physical_tile_type \<Rightarrow> t_logical_block_type \<Rightarrow> error + int" where
  "get_logical_block_physical_sub_tile_index physical_tile logical_block =
     (let idx = sub_tile_index_loop logical_block (sub_tiles physical_tile) OPEN
      in if idx = OPEN
         then Inl (Arch_Fatal (No_Logical_Block_Instance (lb_name logical_block)
                                 (tile_name physical_tile)))
         else Inr idx)"

text \<open>The three-argument, capacity-qualified overload: the loop stops at the first
  match.\<close>

fun sub_tile_index_cap_loop ::
  "t_logical_block_type \<Rightarrow> int \<Rightarrow> t_sub_tile list \<Rightarrow> int" where
  "sub_tile_index_cap_loop logical_block sub_tile_capacity [] = OPEN"
| "sub_tile_index_cap_loop logical_block sub_tile_capacity (sub_tile # rest) =
     (if logical_block \<in> set (equivalent_sites sub_tile)
         \<and> is_in_range (capacity sub_tile) sub_tile_capacity
      then st_index sub_tile
      else sub_tile_index_cap_loop logical_block sub_tile_capacity rest)"

definition get_logical_block_physical_sub_tile_index_cap ::
  "t_physical_tile_type \<Rightarrow> t_logical_block_type \<Rightarrow> int \<Rightarrow> error + int" where
  "get_logical_block_physical_sub_tile_index_cap physical_tile logical_block sub_tile_capacity =
     (let idx = sub_tile_index_cap_loop logical_block sub_tile_capacity (sub_tiles physical_tile)
      in if idx = OPEN
         then Inl (Arch_Fatal (No_Logical_Block_Instance (lb_name logical_block)
                                 (tile_name physical_tile)))
         else Inr idx)"

definition get_physical_pin ::
  "t_physical_tile_type \<Rightarrow> t_logical_block_type \<Rightarrow> int \<Rightarrow> error + int" where
  "get_physical_pin physical_tile logical_block pin =
     bind_res (get_logical_block_physical_sub_tile_index physical_tile logical_block)
       (\<lambda>sub_tile_idx.
     if sub_tile_idx = OPEN then Inl (Arch_Fatal (No_Physical_Pin pin))
     else
     bind_res (get_sub_tile_physical_pin sub_tile_idx physical_tile logical_block pin)
       (\<lambda>sub_tile_physical_pin.
     bind_res (vec_read (sub_tiles physical_tile) sub_tile_idx) (\<lambda>sub_tile.
     vec_read (sub_tile_to_tile_pin_indices sub_tile) sub_tile_physical_pin)))"

subsection \<open>Pin counts\<close>

definition get_total_num_sub_tile_pins :: "t_sub_tile \<Rightarrow> int" where
  "get_total_num_sub_tile_pins sub_tile =
     sum_list (map (\<lambda>eq_site. int (pb_pin_idx_bimap_size eq_site)) (equivalent_sites sub_tile))
       * total_capacity (capacity sub_tile)"

definition get_total_num_tile_pins :: "t_physical_tile_type \<Rightarrow> int" where
  "get_total_num_tile_pins tile =
     sum_list (map (\<lambda>sub_tile.
        sum_list (map (\<lambda>eq_site. pb_type_num_pins eq_site * total_capacity (capacity sub_tile))
                    (equivalent_sites sub_tile)))
       (sub_tiles tile))"

definition get_tile_max_ptc :: "t_physical_tile_type \<Rightarrow> bool \<Rightarrow> int" where
  "get_tile_max_ptc tile is_flat =
     (if is_flat then tile_num_pins tile + get_total_num_tile_pins tile
      else tile_num_pins tile)"

subsection \<open>Sub-tile and capacity instance of a physical pin number\<close>

text \<open>Sub-tiles are passed by pointer in the source; a pointer into
  \<^verbatim>\<open>physical_tile->sub_tiles\<close> is modelled as the position in that vector, and
  \<^verbatim>\<open>nullptr\<close> as \<open>None\<close>. Neither loop of \<^verbatim>\<open>get_sub_tile_from_pin_physical_num\<close>
  leaves at a match: each goes on over the remaining sub-tiles with the unchanged count.\<close>

fun root_pin_sub_tile_loop ::
  "int \<Rightarrow> (nat \<times> t_sub_tile) list \<Rightarrow> nat option \<Rightarrow> int \<Rightarrow> nat option" where
  "root_pin_sub_tile_loop physical_num [] target_sub_tile num_seen_root_pins = target_sub_tile"
| "root_pin_sub_tile_loop physical_num ((i, sub_tile) # rest) target_sub_tile num_seen_root_pins =
     (if physical_num < num_seen_root_pins + num_phy_pins sub_tile
      then root_pin_sub_tile_loop physical_num rest (Some i) num_seen_root_pins
      else root_pin_sub_tile_loop physical_num rest target_sub_tile
             (num_seen_root_pins + num_phy_pins sub_tile))"

fun internal_pin_sub_tile_loop ::
  "int \<Rightarrow> (nat \<times> t_sub_tile) list \<Rightarrow> nat option \<Rightarrow> int \<Rightarrow> nat option" where
  "internal_pin_sub_tile_loop physical_num [] target_sub_tile num_seen_root_pins =
     target_sub_tile"
| "internal_pin_sub_tile_loop physical_num ((i, sub_tile) # rest) target_sub_tile
       num_seen_root_pins =
     (let num_internal_sub_tile_pin =
            get_total_num_sub_tile_pins sub_tile - num_phy_pins sub_tile
      in if physical_num < num_seen_root_pins + num_internal_sub_tile_pin
         then internal_pin_sub_tile_loop physical_num rest (Some i) num_seen_root_pins
         else internal_pin_sub_tile_loop physical_num rest target_sub_tile
                (num_seen_root_pins + num_internal_sub_tile_pin))"

definition get_sub_tile_from_pin_physical_num ::
  "t_physical_tile_type \<Rightarrow> int \<Rightarrow> error + nat" where
  "get_sub_tile_from_pin_physical_num physical_tile physical_num =
     (let target_sub_tile =
        (if physical_num < tile_num_pins physical_tile
         then root_pin_sub_tile_loop physical_num
                (enumerate 0 (sub_tiles physical_tile)) None 0
         else internal_pin_sub_tile_loop physical_num
                (enumerate 0 (sub_tiles physical_tile)) None (tile_num_pins physical_tile))
      in case target_sub_tile of None \<Rightarrow> Inl Assertion_Failed | Some i \<Rightarrow> Inr i)"

fun seen_pins_before_loop :: "nat \<Rightarrow> (nat \<times> t_sub_tile) list \<Rightarrow> int \<Rightarrow> int" where
  "seen_pins_before_loop sub_tile [] num_seen_pins = num_seen_pins"
| "seen_pins_before_loop sub_tile ((i, tmp_sub_tile) # rest) num_seen_pins =
     (if sub_tile = i then num_seen_pins
      else seen_pins_before_loop sub_tile rest
             (num_seen_pins
                + (get_total_num_sub_tile_pins tmp_sub_tile - num_phy_pins tmp_sub_tile)))"

fun internal_pin_cap_loop :: "int \<Rightarrow> int \<Rightarrow> nat list \<Rightarrow> int \<Rightarrow> int" where
  "internal_pin_cap_loop physical_num block_num_pins [] num_seen_pins = -1"
| "internal_pin_cap_loop physical_num block_num_pins (sub_tile_cap # rest) num_seen_pins =
     (if physical_num < num_seen_pins + block_num_pins then int sub_tile_cap
      else internal_pin_cap_loop physical_num block_num_pins rest
             (num_seen_pins + block_num_pins))"

definition get_sub_tile_cap_from_pin_physical_num ::
  "t_physical_tile_type \<Rightarrow> int \<Rightarrow> error + int" where
  "get_sub_tile_cap_from_pin_physical_num physical_tile physical_num =
     bind_res (get_sub_tile_from_pin_physical_num physical_tile physical_num) (\<lambda>i.
     bind_res (vec_read (sub_tiles physical_tile) (int i)) (\<lambda>sub_tile.
     bind_res
       (if physical_num < tile_num_pins physical_tile then
          bind_res (c_div (num_phy_pins sub_tile) (total_capacity (capacity sub_tile)))
            (\<lambda>block_num_pins. c_div physical_num block_num_pins)
        else
          bind_res (c_div (get_total_num_sub_tile_pins sub_tile) (total_capacity (capacity sub_tile)))
            (\<lambda>block_num_pins.
               Inr (internal_pin_cap_loop physical_num block_num_pins
                      [0..<nat (total_capacity (capacity sub_tile))]
                      (seen_pins_before_loop i (enumerate 0 (sub_tiles physical_tile))
                         (tile_num_pins physical_tile)))))
       (\<lambda>target_cap. VTR_ASSERT (target_cap \<noteq> -1) (Inr target_cap))))"

subsection \<open>Primitive class numbering\<close>

datatype 'a walk = Return 'a | Continue int

definition num_primitive_classes :: "t_logical_block_type \<Rightarrow> int" where
  "num_primitive_classes eq_site = int (length (primitive_class_inf eq_site))"

text \<open>The three nested loops of \<^verbatim>\<open>get_primitives_class_physical_num\<close>: sub-tiles,
  capacity instances \<^verbatim>\<open>0 .. total - 1\<close>, equivalent sites. \<open>here\<close> is the pointer test
  \<^verbatim>\<open>&sub_tile == curr_sub_tile\<close>.\<close>

fun primitives_class_site_loop ::
  "bool \<Rightarrow> t_logical_block_type option \<Rightarrow> bool \<Rightarrow> int \<Rightarrow> t_logical_block_type list \<Rightarrow> int
    \<Rightarrow> int walk" where
  "primitives_class_site_loop here curr_logical_block cap_eq logical_num [] num_seen =
     Continue num_seen"
| "primitives_class_site_loop here curr_logical_block cap_eq logical_num (eq_site # rest)
       num_seen =
     (if here \<and> Some eq_site = curr_logical_block \<and> cap_eq
      then Return (num_seen + logical_num)
      else primitives_class_site_loop here curr_logical_block cap_eq logical_num rest
             (num_seen + num_primitive_classes eq_site))"

fun primitives_class_cap_loop ::
  "bool \<Rightarrow> t_logical_block_type option \<Rightarrow> int \<Rightarrow> int \<Rightarrow> t_logical_block_type list \<Rightarrow> nat list
    \<Rightarrow> int \<Rightarrow> int walk" where
  "primitives_class_cap_loop here curr_logical_block curr_relative_cap logical_num sites []
       num_seen = Continue num_seen"
| "primitives_class_cap_loop here curr_logical_block curr_relative_cap logical_num sites
       (sub_tile_cap # rest) num_seen =
     (case primitives_class_site_loop here curr_logical_block
             (curr_relative_cap = int sub_tile_cap) logical_num sites num_seen of
        Return r \<Rightarrow> Return r
      | Continue seen \<Rightarrow>
          primitives_class_cap_loop here curr_logical_block curr_relative_cap logical_num
            sites rest seen)"

fun primitives_class_sub_tile_loop ::
  "nat option \<Rightarrow> t_logical_block_type option \<Rightarrow> int \<Rightarrow> int \<Rightarrow> (nat \<times> t_sub_tile) list \<Rightarrow> int
    \<Rightarrow> int" where
  "primitives_class_sub_tile_loop curr_sub_tile curr_logical_block curr_relative_cap
       logical_num [] num_seen = -1"
| "primitives_class_sub_tile_loop curr_sub_tile curr_logical_block curr_relative_cap
       logical_num ((i, sub_tile) # rest) num_seen =
     (case primitives_class_cap_loop (Some i = curr_sub_tile) curr_logical_block
             curr_relative_cap logical_num (equivalent_sites sub_tile)
             [0..<nat (total_capacity (capacity sub_tile))] num_seen of
        Return r \<Rightarrow> r
      | Continue seen \<Rightarrow>
          primitives_class_sub_tile_loop curr_sub_tile curr_logical_block curr_relative_cap
            logical_num rest seen)"

definition get_primitives_class_physical_num ::
  "t_physical_tile_type \<Rightarrow> nat option \<Rightarrow> t_logical_block_type option \<Rightarrow> int \<Rightarrow> int \<Rightarrow> int" where
  "get_primitives_class_physical_num physical_tile curr_sub_tile curr_logical_block
       curr_relative_cap logical_primitive_class_num =
     primitives_class_sub_tile_loop curr_sub_tile curr_logical_block curr_relative_cap
       logical_primitive_class_num (enumerate 0 (sub_tiles physical_tile)) 0"

definition get_tile_num_primitive_classes :: "t_physical_tile_type \<Rightarrow> int" where
  "get_tile_num_primitive_classes physical_tile =
     sum_list (map (\<lambda>sub_tile.
        sum_list (map (\<lambda>eq_site. num_primitive_classes eq_site * total_capacity (capacity sub_tile))
                    (equivalent_sites sub_tile)))
       (sub_tiles physical_tile))"

subsection \<open>From a physical class number back to its unit\<close>

fun sub_tile_from_class_loop ::
  "t_physical_tile_type \<Rightarrow> int \<Rightarrow> (nat \<times> t_sub_tile) list \<Rightarrow> error + nat option" where
  "sub_tile_from_class_loop physical_tile physical_class_num [] = Inr None"
| "sub_tile_from_class_loop physical_tile physical_class_num ((i, sub_tile) # rest) =
     bind_res (vec_read (equivalent_sites sub_tile) 0) (\<lambda>first_site.
       (let start_physical_class_num =
              get_primitives_class_physical_num physical_tile (Some i) (Some first_site) 0 0;
            end_physical_class_num = start_physical_class_num
              + sum_list (map (\<lambda>sub_tile_cap.
                    sum_list (map num_primitive_classes (equivalent_sites sub_tile)))
                  [0..<nat (total_capacity (capacity sub_tile))])
        in if physical_class_num \<ge> start_physical_class_num
              \<and> physical_class_num < end_physical_class_num
           then Inr (Some i)
           else sub_tile_from_class_loop physical_tile physical_class_num rest))"

definition get_sub_tile_from_class_physical_num ::
  "t_physical_tile_type \<Rightarrow> int \<Rightarrow> error + nat option" where
  "get_sub_tile_from_class_physical_num physical_tile physical_class_num =
     sub_tile_from_class_loop physical_tile physical_class_num
       (enumerate 0 (sub_tiles physical_tile))"

fun cap_from_class_cap_loop ::
  "t_physical_tile_type \<Rightarrow> int \<Rightarrow> nat \<Rightarrow> t_sub_tile \<Rightarrow> nat list \<Rightarrow> error + int option" where
  "cap_from_class_cap_loop physical_tile physical_class_num i sub_tile [] = Inr None"
| "cap_from_class_cap_loop physical_tile physical_class_num i sub_tile (sub_tile_cap # rest) =
     bind_res (vec_read (equivalent_sites sub_tile) 0) (\<lambda>first_site.
       (let start_physical_class_num =
              get_primitives_class_physical_num physical_tile (Some i) (Some first_site)
                (int sub_tile_cap) 0;
            end_physical_class_num = start_physical_class_num
              + sum_list (map num_primitive_classes (equivalent_sites sub_tile))
        in if physical_class_num \<ge> start_physical_class_num
              \<and> physical_class_num < end_physical_class_num
           then Inr (Some (int sub_tile_cap))
           else cap_from_class_cap_loop physical_tile physical_class_num i sub_tile rest))"

fun cap_from_class_loop ::
  "t_physical_tile_type \<Rightarrow> int \<Rightarrow> (nat \<times> t_sub_tile) list \<Rightarrow> error + int" where
  "cap_from_class_loop physical_tile physical_class_num [] = Inr (-1)"
| "cap_from_class_loop physical_tile physical_class_num ((i, sub_tile) # rest) =
     bind_res (cap_from_class_cap_loop physical_tile physical_class_num i sub_tile
                 [0..<nat (total_capacity (capacity sub_tile))])
       (\<lambda>r. case r of Some sub_tile_cap \<Rightarrow> Inr sub_tile_cap
                     | None \<Rightarrow> cap_from_class_loop physical_tile physical_class_num rest)"

definition get_sub_tile_cap_from_class_physical_num ::
  "t_physical_tile_type \<Rightarrow> int \<Rightarrow> error + int" where
  "get_sub_tile_cap_from_class_physical_num physical_tile physical_class_num =
     cap_from_class_loop physical_tile physical_class_num
       (enumerate 0 (sub_tiles physical_tile))"

fun block_from_class_site_loop ::
  "t_physical_tile_type \<Rightarrow> int \<Rightarrow> nat \<Rightarrow> nat \<Rightarrow> t_logical_block_type list
    \<Rightarrow> t_logical_block_type option" where
  "block_from_class_site_loop physical_tile physical_class_num i sub_tile_cap [] = None"
| "block_from_class_site_loop physical_tile physical_class_num i sub_tile_cap (eq_site # rest) =
     (let start_physical_class_num =
            get_primitives_class_physical_num physical_tile (Some i) (Some eq_site)
              (int sub_tile_cap) 0;
          end_physical_class_num = start_physical_class_num + num_primitive_classes eq_site
      in if physical_class_num \<ge> start_physical_class_num
            \<and> physical_class_num < end_physical_class_num
         then Some eq_site
         else block_from_class_site_loop physical_tile physical_class_num i sub_tile_cap rest)"

fun block_from_class_cap_loop ::
  "t_physical_tile_type \<Rightarrow> int \<Rightarrow> nat \<Rightarrow> t_sub_tile \<Rightarrow> nat list
    \<Rightarrow> t_logical_block_type option" where
  "block_from_class_cap_loop physical_tile physical_class_num i sub_tile [] = None"
| "block_from_class_cap_loop physical_tile physical_class_num i sub_tile (sub_tile_cap # rest) =
     (case block_from_class_site_loop physical_tile physical_class_num i sub_tile_cap
             (equivalent_sites sub_tile) of
        Some eq_site \<Rightarrow> Some eq_site
      | None \<Rightarrow> block_from_class_cap_loop physical_tile physical_class_num i sub_tile rest)"

fun block_from_class_loop ::
  "t_physical_tile_type \<Rightarrow> int \<Rightarrow> (nat \<times> t_sub_tile) list \<Rightarrow> t_logical_block_type option" where
  "block_from_class_loop physical_tile physical_class_num [] = None"
| "block_from_class_loop physical_tile physical_class_num ((i, sub_tile) # rest) =
     (case block_from_class_cap_loop physical_tile physical_class_num i sub_tile
             [0..<nat (total_capacity (capacity sub_tile))] of
        Some eq_site \<Rightarrow> Some eq_site
      | None \<Rightarrow> block_from_class_loop physical_tile physical_class_num rest)"

definition get_logical_block_from_class_physical_num ::
  "t_physical_tile_type \<Rightarrow> int \<Rightarrow> t_logical_block_type option" where
  "get_logical_block_from_class_physical_num physical_tile physical_class_num =
     block_from_class_loop physical_tile physical_class_num
       (enumerate 0 (sub_tiles physical_tile))"

definition get_class_logical_num_from_class_physical_num ::
  "t_physical_tile_type \<Rightarrow> int \<Rightarrow> error + int" where
  "get_class_logical_num_from_class_physical_num physical_tile physical_class_num =
     bind_res (get_sub_tile_from_class_physical_num physical_tile physical_class_num)
       (\<lambda>sub_tile.
     bind_res (get_sub_tile_cap_from_class_physical_num physical_tile physical_class_num)
       (\<lambda>sub_tile_cap.
     VTR_ASSERT (sub_tile_cap \<noteq> -1)
       (let logical_block =
              get_logical_block_from_class_physical_num physical_tile physical_class_num;
            start_physical_class_num =
              get_primitives_class_physical_num physical_tile sub_tile logical_block
                sub_tile_cap 0
        in VTR_ASSERT (start_physical_class_num \<noteq> -1)
             (Inr (physical_class_num - start_physical_class_num)))))"

subsection \<open>Example tiles\<close>

definition mk_sub_tile :: "int \<Rightarrow> int \<Rightarrow> int \<Rightarrow> int \<Rightarrow> t_logical_block_type list \<Rightarrow>
    t_physical_tile_port list \<Rightarrow> t_sub_tile" where
  "mk_sub_tile idx lo hi n sites ps =
     \<lparr>st_index = idx, capacity = \<lparr>low = lo, high = hi\<rparr>, num_phy_pins = n,
      equivalent_sites = sites, ports = ps,
      sub_tile_to_tile_pin_indices = []\<rparr>"

definition mk_tile :: "string \<Rightarrow> int \<Rightarrow> t_sub_tile list \<Rightarrow> t_physical_tile_type" where
  "mk_tile nm n sts =
     \<lparr>tile_name = nm, tile_num_pins = n, sub_tiles = sts, pin_class = [], class_inf = [],
      tile_block_pin_directs_map = Map.empty\<rparr>"

text \<open>One sub-tile with four pins and a single instance.\<close>

definition four_pin_tile :: t_physical_tile_type where
  "four_pin_tile = mk_tile ''T'' 4 [mk_sub_tile 0 0 0 4 [] []]"

text \<open>Two sub-tiles: six pins in one instance, then four pins in two instances
  (capacity locations 1 and 2, two pins each).\<close>

definition tile_6_4 :: t_physical_tile_type where
  "tile_6_4 = mk_tile ''T'' 10 [mk_sub_tile 0 0 0 6 [] [], mk_sub_tile 1 1 2 4 [] []]"

text \<open>Two single-pin sub-tiles that both claim capacity location 0.\<close>

definition overlapping_tile :: t_physical_tile_type where
  "overlapping_tile = mk_tile ''O'' 2 [mk_sub_tile 0 0 0 1 [] [], mk_sub_tile 1 0 0 1 [] []]"

text \<open>One sub-tile with two pins of which only pin 0 belongs to a port.\<close>

definition portless_pin_tile :: t_physical_tile_type where
  "portless_pin_tile = mk_tile ''P'' 2 [mk_sub_tile 0 0 0 2 []
     [\<lparr>p_name = ''in'', p_index = 0, absolute_first_pin_index = 0, p_num_pins = 1\<rparr>]]"

text \<open>A block with two root pins, five pins in its pin graph and one primitive class.\<close>

definition block_A :: t_logical_block_type where
  "block_A = \<lparr>lb_name = ''A'', lb_index = 0, pb_type_num_pins = 2, pb_pin_idx_bimap_size = 5,
      primitive_class_inf = [\<lparr>class_type = DRIVER, class_num_pins = 1, pinlist = [0]\<rparr>]\<rparr>"

text \<open>Block A is an equivalent site of both sub-tiles of this tile.\<close>

definition shared_block_tile :: t_physical_tile_type where
  "shared_block_tile =
     \<lparr>tile_name = ''S'', tile_num_pins = 4,
      sub_tiles =
        [\<lparr>st_index = 0, capacity = \<lparr>low = 0, high = 0\<rparr>, num_phy_pins = 2,
          equivalent_sites = [block_A], ports = [], sub_tile_to_tile_pin_indices = [0, 1]\<rparr>,
         \<lparr>st_index = 1, capacity = \<lparr>low = 1, high = 1\<rparr>, num_phy_pins = 2,
          equivalent_sites = [block_A], ports = [], sub_tile_to_tile_pin_indices = [2, 3]\<rparr>],
      pin_class = [0, 0, 0, 0],
      class_inf = [\<lparr>class_type = DRIVER, class_num_pins = 4, pinlist = [0, 1, 2, 3]\<rparr>],
      tile_block_pin_directs_map =
        [0 \<mapsto> [0 \<mapsto> [0 \<mapsto> 0, 1 \<mapsto> 1], 1 \<mapsto> [0 \<mapsto> 0, 1 \<mapsto> 1]]]\<rparr>"

subsection \<open>Descriptor invariants and the linearization in closed form\<close>

text \<open>The invariants of the data model that the translators rely on: a sub-tile has at
  least one instance and its pin count is a multiple of the instance count, so that every
  instance has \<open>pins_per_inst\<close> pins.\<close>

definition pins_per_inst_ok :: "t_sub_tile \<Rightarrow> bool" where
  "pins_per_inst_ok sub_tile =
     (low (capacity sub_tile) \<le> high (capacity sub_tile) \<and> 0 \<le> num_phy_pins sub_tile
      \<and> num_phy_pins sub_tile mod total_capacity (capacity sub_tile) = 0)"

definition pins_per_inst :: "t_sub_tile \<Rightarrow> int" where
  "pins_per_inst sub_tile = num_phy_pins sub_tile div total_capacity (capacity sub_tile)"

text \<open>The pin offset of the sub-tile at position \<open>i\<close>: the pin counts of the sub-tiles
  declared before it.\<close>

definition pin_offset_before :: "t_sub_tile list \<Rightarrow> nat \<Rightarrow> int" where
  "pin_offset_before sts i = sum_list (map num_phy_pins (take i sts))"

text \<open>No capacity location belongs to two sub-tiles.\<close>

fun capacity_ranges_disjoint :: "t_sub_tile list \<Rightarrow> bool" where
  "capacity_ranges_disjoint [] = True"
| "capacity_ranges_disjoint (st # rest) =
     ((\<forall>s\<in>set rest. high (capacity st) < low (capacity s)
                    \<or> high (capacity s) < low (capacity st))
      \<and> capacity_ranges_disjoint rest)"

definition pin_counts_ok :: "t_physical_tile_type \<Rightarrow> bool" where
  "pin_counts_ok t =
     (tile_num_pins t = sum_list (map num_phy_pins (sub_tiles t))
      \<and> (\<forall>st\<in>set (sub_tiles t). pins_per_inst_ok st))"

definition capacity_tile_ok :: "t_physical_tile_type \<Rightarrow> bool" where
  "capacity_tile_ok t = (pin_counts_ok t \<and> capacity_ranges_disjoint (sub_tiles t))"

text \<open>The \<open>index\<close> field of a sub-tile is its position in the tile.\<close>

definition sub_tiles_indexed :: "t_physical_tile_type \<Rightarrow> bool" where
  "sub_tiles_indexed t = (\<forall>i<length (sub_tiles t). st_index (sub_tiles t ! i) = int i)"

definition lists_block :: "t_logical_block_type \<Rightarrow> t_sub_tile \<Rightarrow> bool" where
  "lists_block lb st = (lb \<in> set (equivalent_sites st))"

definition lists_block_at :: "t_logical_block_type \<Rightarrow> int \<Rightarrow> t_sub_tile \<Rightarrow> bool" where
  "lists_block_at lb c st = (lb \<in> set (equivalent_sites st) \<and> is_in_range (capacity st) c)"

subsection \<open>Class numbering: descriptor invariants and closed form\<close>

text \<open>A sub-tile that the class translators can address: at least one instance, at least
  one equivalent site, and no site listed twice.\<close>

definition class_sites_ok :: "t_sub_tile \<Rightarrow> bool" where
  "class_sites_ok sub_tile =
     (low (capacity sub_tile) \<le> high (capacity sub_tile)
      \<and> equivalent_sites sub_tile \<noteq> [] \<and> distinct (equivalent_sites sub_tile))"

definition class_tile_ok :: "t_physical_tile_type \<Rightarrow> bool" where
  "class_tile_ok t = (\<forall>st\<in>set (sub_tiles t). class_sites_ok st)"

definition classes_per_inst :: "t_sub_tile \<Rightarrow> int" where
  "classes_per_inst st = sum_list (map num_primitive_classes (equivalent_sites st))"

definition classes_of_sub_tile :: "t_sub_tile \<Rightarrow> int" where
  "classes_of_sub_tile st = int (nat (total_capacity (capacity st))) * classes_per_inst st"

definition class_offset_before :: "t_sub_tile list \<Rightarrow> nat \<Rightarrow> int" where
  "class_offset_before sts i = sum_list (map classes_of_sub_tile (take i sts))"

definition site_offset_before :: "t_sub_tile \<Rightarrow> nat \<Rightarrow> int" where
  "site_offset_before st k = sum_list (map num_primitive_classes (take k (equivalent_sites st)))"

text \<open>The first class number of the unit (sub-tile \<open>i\<close>, instance \<open>c\<close>, site \<open>k\<close>)
  in the linearization: sub-tiles, then instances, then equivalent sites.\<close>

definition unit_start :: "t_sub_tile list \<Rightarrow> nat \<Rightarrow> nat \<Rightarrow> nat \<Rightarrow> int" where
  "unit_start sts i c k =
     class_offset_before sts i + int c * classes_per_inst (sts ! i)
       + site_offset_before (sts ! i) k"

text \<open>Tiles for the class numbering: a block with two classes, a tile with two
  instances of two blocks followed by a single-block sub-tile, and a tile whose only
  sub-tile lists block A twice.\<close>

definition block_B :: t_logical_block_type where
  "block_B = \<lparr>lb_name = ''B'', lb_index = 1, pb_type_num_pins = 3, pb_pin_idx_bimap_size = 7,
      primitive_class_inf = [\<lparr>class_type = RECEIVER, class_num_pins = 2, pinlist = [0, 1]\<rparr>,
                             \<lparr>class_type = DRIVER, class_num_pins = 1, pinlist = [2]\<rparr>]\<rparr>"

definition two_block_tile :: t_physical_tile_type where
  "two_block_tile = mk_tile ''M'' 9
     [mk_sub_tile 0 0 1 6 [block_A, block_B] [], mk_sub_tile 1 2 2 3 [block_B] []]"

definition duplicate_site_tile :: t_physical_tile_type where
  "duplicate_site_tile = mk_tile ''D'' 2 [mk_sub_tile 0 0 0 2 [block_A, block_A] []]"

section \<open>Theorems\<close>

subsection \<open>Arithmetic helpers\<close>

lemma c_div_nonneg: "0 \<le> a \<Longrightarrow> 0 < b \<Longrightarrow> c_div a b = Inr (a div b)"
  by (cases "a = 0") (simp_all add: c_div_def c_quot_def)

lemma c_mod_nonneg: "0 \<le> a \<Longrightarrow> 0 < b \<Longrightarrow> c_mod a b = Inr (a mod b)"
  by (cases "a = 0") (simp_all add: c_mod_def c_quot_def minus_mult_div_eq_mod)

lemma total_pos: "pins_per_inst_ok st \<Longrightarrow> 0 < total_capacity (capacity st)"
  by (simp add: pins_per_inst_ok_def total_capacity_def)

lemma pins_split: "pins_per_inst_ok st \<Longrightarrow> num_phy_pins st = pins_per_inst st * total_capacity (capacity st)"
  by (simp add: pins_per_inst_ok_def pins_per_inst_def mod_eq_0_iff_dvd)

lemma pins_per_inst_pos:
  assumes "pins_per_inst_ok st" "0 < num_phy_pins st"
  shows "0 < pins_per_inst st"
proof (rule ccontr)
  assume "\<not> 0 < pins_per_inst st"
  then have "pins_per_inst st \<le> 0" by simp
  then have "pins_per_inst st * total_capacity (capacity st) \<le> 0"
    using total_pos [OF assms(1)] by (simp add: mult_le_0_iff)
  then show False using pins_split [OF assms(1)] assms(2) by simp
qed

lemma c_div_pins: "pins_per_inst_ok st \<Longrightarrow>
   c_div (num_phy_pins st) (total_capacity (capacity st)) = Inr (pins_per_inst st)"
  using c_div_nonneg [of "num_phy_pins st" "total_capacity (capacity st)"] total_pos [of st]
  by (simp add: pins_per_inst_def pins_per_inst_ok_def)

lemma div_less_of_less_mult:
  fixes a b c :: int
  assumes "0 < b" "a < b * c"
  shows "a div b < c"
proof (rule ccontr)
  assume "\<not> a div b < c"
  then have "c \<le> a div b" by simp
  then have "b * c \<le> b * (a div b)" using assms(1) by (simp add: mult_left_mono)
  also have "\<dots> = a - a mod b" by (simp add: minus_mod_eq_mult_div)
  also have "\<dots> \<le> a" using assms(1) by simp
  finally show False using assms(2) by simp
qed

subsection \<open>Root-level pin location\<close>

lemma pin_index_for_inst_loop_owner:
  assumes "\<forall>st\<in>set sts. pins_per_inst_ok st"
    and "off \<le> p" and "p < off + sum_list (map num_phy_pins sts)"
  shows "\<exists>i<length sts.
           off + pin_offset_before sts i \<le> p
         \<and> p < off + pin_offset_before sts i + num_phy_pins (sts ! i)
         \<and> pin_index_for_inst_loop nm p sts off off =
             Inr ((p - (off + pin_offset_before sts i)) mod pins_per_inst (sts ! i),
                  (p - (off + pin_offset_before sts i)) div pins_per_inst (sts ! i),
                  st_index (sts ! i))"
  using assms
proof (induction sts arbitrary: off)
  case Nil
  then show ?case by simp
next
  case (Cons st sts)
  show ?case
  proof (cases "p < off + num_phy_pins st")
    case True
    have ok: "pins_per_inst_ok st" using Cons.prems(1) by simp
    have pos: "0 < num_phy_pins st" using True Cons.prems(2) by simp
    have per: "0 < pins_per_inst st" by (rule pins_per_inst_pos [OF ok pos])
    have d: "c_div (num_phy_pins st) (total_capacity (capacity st)) = Inr (pins_per_inst st)"
      using c_div_nonneg [of "num_phy_pins st" "total_capacity (capacity st)"] pos total_pos [OF ok]
      by (simp add: pins_per_inst_def)
    have "pin_index_for_inst_loop nm p (st # sts) off off =
            Inr ((p - off) mod pins_per_inst st, (p - off) div pins_per_inst st, st_index st)"
      using True d per Cons.prems(2)
      by (simp add: bind_res_def c_div_nonneg c_mod_nonneg)
    then show ?thesis using True Cons.prems(2)
      by (intro exI [of _ 0]) (simp add: pin_offset_before_def)
  next
    case False
    have "\<exists>i<length sts.
           (off + num_phy_pins st) + pin_offset_before sts i \<le> p
         \<and> p < (off + num_phy_pins st) + pin_offset_before sts i + num_phy_pins (sts ! i)
         \<and> pin_index_for_inst_loop nm p sts (off + num_phy_pins st) (off + num_phy_pins st) =
             Inr ((p - ((off + num_phy_pins st) + pin_offset_before sts i)) mod pins_per_inst (sts ! i),
                  (p - ((off + num_phy_pins st) + pin_offset_before sts i)) div pins_per_inst (sts ! i),
                  st_index (sts ! i))"
      using Cons.prems False by (intro Cons.IH) (simp_all add: add.assoc)
    then obtain i where i: "i < length sts"
      and a: "(off + num_phy_pins st) + pin_offset_before sts i \<le> p"
      and b: "p < (off + num_phy_pins st) + pin_offset_before sts i + num_phy_pins (sts ! i)"
      and c: "pin_index_for_inst_loop nm p sts (off + num_phy_pins st) (off + num_phy_pins st) =
             Inr ((p - ((off + num_phy_pins st) + pin_offset_before sts i)) mod pins_per_inst (sts ! i),
                  (p - ((off + num_phy_pins st) + pin_offset_before sts i)) div pins_per_inst (sts ! i),
                  st_index (sts ! i))"
      by blast
    have o: "pin_offset_before (st # sts) (Suc i) = num_phy_pins st + pin_offset_before sts i"
      by (simp add: pin_offset_before_def)
    show ?thesis using i a b c False
      by (intro exI [of _ "Suc i"]) (simp add: o add.assoc)
  qed
qed

text \<open>C4. For a tile that satisfies the invariants of the data model (its pin count is
  the sum of its sub-tiles' pin counts; every sub-tile has at least one instance and a pin
  count that is a multiple of its instance count) and a pin index \<open>0 \<le> p < num_pins\<close>,
  \<open>get_pin_index_for_inst\<close> returns for the sub-tile \<open>i\<close> whose range of accumulated
  pin counts contains \<open>p\<close> the triple (index within instance, capacity instance, sub-tile
  index), namely the remainder and the quotient of \<open>p\<close> minus the pin offset by the
  per-instance pin count. In particular, in a tile of two sub-tiles with 6 and 4 pins, pin 7
  resolves into the second sub-tile with the offset-corrected index 1.\<close>

theorem C4_get_pin_index_for_inst:
  assumes "0 \<le> p" and "p < tile_num_pins t" and "pin_counts_ok t"
  shows "(\<exists>i<length (sub_tiles t).
           pin_offset_before (sub_tiles t) i \<le> p
         \<and> p < pin_offset_before (sub_tiles t) i + num_phy_pins (sub_tiles t ! i)
         \<and> get_pin_index_for_inst t p =
             Inr ((p - pin_offset_before (sub_tiles t) i) mod pins_per_inst (sub_tiles t ! i),
                  (p - pin_offset_before (sub_tiles t) i) div pins_per_inst (sub_tiles t ! i),
                  st_index (sub_tiles t ! i)))
       \<and> (\<forall>a b. sub_tiles t = [a, b] \<and> num_phy_pins a = 6 \<and> num_phy_pins b = 4 \<and> p = 7 \<longrightarrow>
             get_pin_index_for_inst t p =
               Inr (1 mod pins_per_inst b, 1 div pins_per_inst b, st_index b))"
proof -
  have owner: "\<exists>i<length (sub_tiles t).
           pin_offset_before (sub_tiles t) i \<le> p
         \<and> p < pin_offset_before (sub_tiles t) i + num_phy_pins (sub_tiles t ! i)
         \<and> get_pin_index_for_inst t p =
             Inr ((p - pin_offset_before (sub_tiles t) i) mod pins_per_inst (sub_tiles t ! i),
                  (p - pin_offset_before (sub_tiles t) i) div pins_per_inst (sub_tiles t ! i),
                  st_index (sub_tiles t ! i))"
    using pin_index_for_inst_loop_owner [of "sub_tiles t" 0 p "tile_name t"] assms
    by (simp add: get_pin_index_for_inst_def VTR_ASSERT_def pin_counts_ok_def)
  have "get_pin_index_for_inst t p =
               Inr (1 mod pins_per_inst b, 1 div pins_per_inst b, st_index b)"
    if ab: "sub_tiles t = [a, b]" "num_phy_pins a = 6" "num_phy_pins b = 4" "p = 7" for a b
  proof -
    obtain i where i: "i < length (sub_tiles t)"
      and hi: "p < pin_offset_before (sub_tiles t) i + num_phy_pins (sub_tiles t ! i)"
      and r: "get_pin_index_for_inst t p =
             Inr ((p - pin_offset_before (sub_tiles t) i) mod pins_per_inst (sub_tiles t ! i),
                  (p - pin_offset_before (sub_tiles t) i) div pins_per_inst (sub_tiles t ! i),
                  st_index (sub_tiles t ! i))"
      using owner by blast
    have "i = 0 \<or> i = 1" using i ab(1) by auto
    then have "i = 1" using hi ab by (auto simp: pin_offset_before_def)
    then show ?thesis using r ab by (simp add: pin_offset_before_def)
  qed
  then show ?thesis using owner by blast
qed

text \<open>The scenario of the specification: sub-tiles of 6 and 4 pins, pin 7 resolves
  into the second sub-tile at local index 1.\<close>

theorem C4_get_pin_index_for_inst_witness:
  "0 \<le> (7::int) \<and> 7 < tile_num_pins tile_6_4 \<and> pin_counts_ok tile_6_4
   \<and> sub_tiles tile_6_4 = [mk_sub_tile 0 0 0 6 [] [], mk_sub_tile 1 1 2 4 [] []]
   \<and> num_phy_pins (mk_sub_tile 0 0 0 6 [] []) = 6
   \<and> num_phy_pins (mk_sub_tile 1 1 2 4 [] []) = 4
   \<and> get_pin_index_for_inst tile_6_4 7 = Inr (1, 0, 1)"
proof -
  have h: "0 \<le> (7::int)" "7 < tile_num_pins tile_6_4" "pin_counts_ok tile_6_4"
    by (simp_all add: pin_counts_ok_def tile_6_4_def mk_tile_def mk_sub_tile_def
        pins_per_inst_ok_def total_capacity_def)
  have s: "sub_tiles tile_6_4 = [mk_sub_tile 0 0 0 6 [] [], mk_sub_tile 1 1 2 4 [] []]"
    "num_phy_pins (mk_sub_tile 0 0 0 6 [] []) = 6"
    "num_phy_pins (mk_sub_tile 1 1 2 4 [] []) = 4"
    by (simp_all add: tile_6_4_def mk_tile_def mk_sub_tile_def)
  have "get_pin_index_for_inst tile_6_4 7 =
          Inr (1 mod pins_per_inst (mk_sub_tile 1 1 2 4 [] []),
               1 div pins_per_inst (mk_sub_tile 1 1 2 4 [] []),
               st_index (mk_sub_tile 1 1 2 4 [] []))"
    using C4_get_pin_index_for_inst [OF h] s by blast
  then have "get_pin_index_for_inst tile_6_4 7 = Inr (1, 0, 1)"
    by (simp add: mk_sub_tile_def pins_per_inst_def total_capacity_def)
  then show ?thesis using h s by simp
qed

text \<open>C6 (counterexample). For the pin index 4 of a tile that declares 4 pins,
  \<open>get_pin_index_for_inst\<close> does not fail with the architecture-inconsistency error
  that names the tile and the index: the entry assertion fires first.\<close>

theorem C6_out_of_range_is_assertion_counterexample:
  "get_pin_index_for_inst four_pin_tile 4 = Inl Assertion_Failed \<and>
   get_pin_index_for_inst four_pin_tile 4
     \<noteq> Inl (Arch_Fatal (Could_Not_Infer_Pin_Instance (tile_name four_pin_tile) 4))"
  by (simp add: get_pin_index_for_inst_def VTR_ASSERT_def four_pin_tile_def mk_tile_def)

text \<open>C6 (amended). For every tile and every pin index greater than or equal to the tile's
  declared pin count, \<open>get_pin_index_for_inst\<close> fails with the assertion class (the
  \<^verbatim>\<open>VTR_ASSERT\<close> at its entry); it returns no value.\<close>

theorem C6_out_of_range_rejected:
  assumes "tile_num_pins type \<le> pin_index"
  shows "get_pin_index_for_inst type pin_index = Inl Assertion_Failed"
  using assms by (simp add: get_pin_index_for_inst_def VTR_ASSERT_def)

theorem C6_out_of_range_rejected_witness:
  "tile_num_pins four_pin_tile \<le> 7 \<and>
   get_pin_index_for_inst four_pin_tile 7 = Inl Assertion_Failed"
  using C6_out_of_range_rejected [of four_pin_tile 7]
  by (simp add: four_pin_tile_def mk_tile_def)

subsection \<open>Capacity-location round trip\<close>

lemma capacity_location_then_physical_pin:
  assumes "\<forall>st\<in>set sts. pins_per_inst_ok st" and "capacity_ranges_disjoint sts"
    and "acc \<le> p" and "p < acc + sum_list (map num_phy_pins sts)"
  shows "\<exists>cl rp. capacity_location_loop nm p sts acc = Inr (cl, rp)
           \<and> physical_pin_loop nm rp cl sts acc = Inr p
           \<and> (\<exists>s\<in>set sts. is_in_range (capacity s) cl)"
  using assms
proof (induction sts arbitrary: acc)
  case Nil
  then show ?case by simp
next
  case (Cons st sts)
  have ok: "pins_per_inst_ok st" using Cons.prems(1) by simp
  note dv = c_div_pins [OF ok]
  show ?case
  proof (cases "p - acc < num_phy_pins st")
    case True
    define a where "a = p - acc"
    have a0: "0 \<le> a" using Cons.prems(3) by (simp add: a_def)
    have pos: "0 < num_phy_pins st" using True Cons.prems(3) by simp
    have per: "0 < pins_per_inst st" by (rule pins_per_inst_pos [OF ok pos])
    have "a < pins_per_inst st * total_capacity (capacity st)"
      using True pins_split [OF ok] by (simp add: a_def)
    then have q1: "a div pins_per_inst st < total_capacity (capacity st)"
      by (rule div_less_of_less_mult [OF per])
    have q0: "0 \<le> a div pins_per_inst st"
      using a0 per by (simp add: pos_imp_zdiv_nonneg_iff)
    have rng: "is_in_range (capacity st) (a div pins_per_inst st + low (capacity st))"
      using q0 q1 by (simp add: is_in_range_def total_capacity_def)
    have fwd: "capacity_location_loop nm p (st # sts) acc =
        Inr (a div pins_per_inst st + low (capacity st), a mod pins_per_inst st)"
      using True dv per a0
      by (simp add: bind_res_def c_div_nonneg c_mod_nonneg a_def Let_def)
    have "acc + pins_per_inst st * (a div pins_per_inst st) + a mod pins_per_inst st = p"
      by (simp add: a_def add.assoc)
    then have inv: "physical_pin_loop nm (a mod pins_per_inst st)
        (a div pins_per_inst st + low (capacity st)) (st # sts) acc = Inr p"
      using dv rng by (simp add: bind_res_def)
    show ?thesis using fwd inv rng by auto
  next
    case False
    have "\<exists>cl rp. capacity_location_loop nm p sts (acc + num_phy_pins st) = Inr (cl, rp)
           \<and> physical_pin_loop nm rp cl sts (acc + num_phy_pins st) = Inr p
           \<and> (\<exists>s\<in>set sts. is_in_range (capacity s) cl)"
      using Cons.prems False by (intro Cons.IH) (simp_all add: add.assoc)
    then obtain cl rp s where f: "capacity_location_loop nm p sts (acc + num_phy_pins st) = Inr (cl, rp)"
      and i: "physical_pin_loop nm rp cl sts (acc + num_phy_pins st) = Inr p"
      and s: "s \<in> set sts" "is_in_range (capacity s) cl"
      by blast
    have "high (capacity st) < low (capacity s) \<or> high (capacity s) < low (capacity st)"
      using Cons.prems(2) s(1) by simp
    then have nr: "\<not> is_in_range (capacity st) cl"
      using s(2) by (auto simp: is_in_range_def)
    have "capacity_location_loop nm p (st # sts) acc = Inr (cl, rp)"
      using False f by (simp add: Let_def)
    moreover have "physical_pin_loop nm rp cl (st # sts) acc = Inr p"
      using nr dv i by (simp add: bind_res_def)
    ultimately show ?thesis using s by auto
  qed
qed

lemma physical_pin_then_capacity_location:
  assumes "\<forall>st\<in>set sts. pins_per_inst_ok st" and "capacity_ranges_disjoint sts"
    and "st \<in> set sts" and "is_in_range (capacity st) cl"
    and "0 \<le> rp" and "rp < pins_per_inst st"
  shows "\<exists>p. physical_pin_loop nm rp cl sts acc = Inr p
           \<and> capacity_location_loop nm p sts acc = Inr (cl, rp) \<and> acc \<le> p"
  using assms(1-3)
proof (induction sts arbitrary: acc)
  case Nil
  then show ?case by simp
next
  case (Cons s sts)
  have ok: "pins_per_inst_ok s" using Cons.prems(1) by simp
  note dv = c_div_pins [OF ok]
  show ?case
  proof (cases "is_in_range (capacity s) cl")
    case True
    have "st = s"
    proof (rule ccontr)
      assume "st \<noteq> s"
      then have "st \<in> set sts" using Cons.prems(3) by simp
      then have "high (capacity s) < low (capacity st) \<or> high (capacity st) < low (capacity s)"
        using Cons.prems(2) by simp
      then show False using True assms(4) by (auto simp: is_in_range_def)
    qed
    define k where "k = cl - low (capacity s)"
    define per where "per = pins_per_inst s"
    have per: "0 < per" using assms(5,6) \<open>st = s\<close> by (simp add: per_def)
    have k0: "0 \<le> k" and k1: "k + 1 \<le> total_capacity (capacity s)"
      using True by (simp_all add: k_def is_in_range_def total_capacity_def)
    have rp: "0 \<le> rp" "rp < per" using assms(5,6) \<open>st = s\<close> by (simp_all add: per_def)
    have "per * k + rp < per * (k + 1)" using rp by (simp add: distrib_left)
    also have "\<dots> \<le> per * total_capacity (capacity s)"
      using k1 per by (simp add: mult_left_mono)
    finally have lt: "per * k + rp < num_phy_pins s"
      using pins_split [OF ok] by (simp add: per_def mult.commute)
    have ge: "0 \<le> per * k + rp" using per k0 rp by simp
    have inv: "physical_pin_loop nm rp cl (s # sts) acc = Inr (acc + per * k + rp)"
      using True dv by (simp add: bind_res_def k_def per_def)
    have dm: "(per * k + rp) div per = k" "(per * k + rp) mod per = rp"
      using rp per by simp_all
    have "capacity_location_loop nm (acc + per * k + rp) (s # sts) acc = Inr (cl, rp)"
      using lt ge dv per dm
      by (simp add: bind_res_def Let_def c_div_nonneg c_mod_nonneg per_def [symmetric])
        (simp add: k_def)
    then show ?thesis using inv ge by (intro exI [of _ "acc + per * k + rp"]) simp
  next
    case False
    then have "st \<noteq> s" using assms(4) by auto
    then have "st \<in> set sts" using Cons.prems(3) by simp
    then have "\<exists>p. physical_pin_loop nm rp cl sts (acc + num_phy_pins s) = Inr p
           \<and> capacity_location_loop nm p sts (acc + num_phy_pins s) = Inr (cl, rp)
           \<and> acc + num_phy_pins s \<le> p"
      using Cons.prems by (intro Cons.IH) simp_all
    then obtain p where i: "physical_pin_loop nm rp cl sts (acc + num_phy_pins s) = Inr p"
      and f: "capacity_location_loop nm p sts (acc + num_phy_pins s) = Inr (cl, rp)"
      and g: "acc + num_phy_pins s \<le> p" by blast
    have n0: "0 \<le> num_phy_pins s" using ok by (simp add: pins_per_inst_ok_def)
    have "physical_pin_loop nm rp cl (s # sts) acc = Inr p"
      using False dv i by (simp add: bind_res_def)
    moreover have "capacity_location_loop nm p (s # sts) acc = Inr (cl, rp)"
      using g f by (simp add: Let_def)
    ultimately show ?thesis using g n0 by (intro exI [of _ p]) simp
  qed
qed

text \<open>C1 (counterexample). In a tile whose two sub-tiles both own capacity location 0,
  pin 1 translates to the pair (capacity location 0, relative pin 0), and that pair
  translates back to pin 0.\<close>

theorem C1_capacity_location_round_trip_counterexample:
  "get_capacity_location_from_physical_pin overlapping_tile 1 = Inr (0, 0)
   \<and> get_physical_pin_from_capacity_location overlapping_tile 0 0 = Inr 0"
  by (simp add: get_capacity_location_from_physical_pin_def
      get_physical_pin_from_capacity_location_def overlapping_tile_def mk_tile_def
      mk_sub_tile_def bind_res_def c_div_def c_mod_def c_quot_def total_capacity_def is_in_range_def)

text \<open>C1 (amended). For a tile whose pin count is the sum of its sub-tiles' pin counts,
  whose sub-tiles each have at least one instance and a pin count that is a multiple of the
  instance count, and whose sub-tiles have pairwise disjoint capacity ranges: every pin
  \<open>0 \<le> p < num_pins\<close> is mapped by \<open>get_capacity_location_from_physical_pin\<close> to a
  pair that \<open>get_physical_pin_from_capacity_location\<close> maps back to \<open>p\<close>; and every
  pair of a capacity location in some sub-tile's range and a relative pin below that
  sub-tile's per-instance pin count is mapped to a pin that is mapped back to the pair.\<close>

theorem C1_capacity_location_round_trip:
  assumes "capacity_tile_ok t"
  shows "(\<forall>p. 0 \<le> p \<and> p < tile_num_pins t \<longrightarrow>
            (\<exists>cl rp. get_capacity_location_from_physical_pin t p = Inr (cl, rp)
               \<and> get_physical_pin_from_capacity_location t rp cl = Inr p))
       \<and> (\<forall>st\<in>set (sub_tiles t). \<forall>cl rp.
            is_in_range (capacity st) cl \<and> 0 \<le> rp \<and> rp < pins_per_inst st \<longrightarrow>
            (\<exists>p. get_physical_pin_from_capacity_location t rp cl = Inr p
               \<and> get_capacity_location_from_physical_pin t p = Inr (cl, rp)))"
proof (intro conjI allI ballI impI)
  fix p assume "0 \<le> p \<and> p < tile_num_pins t"
  then show "\<exists>cl rp. get_capacity_location_from_physical_pin t p = Inr (cl, rp)
               \<and> get_physical_pin_from_capacity_location t rp cl = Inr p"
    using capacity_location_then_physical_pin [of "sub_tiles t" 0 p "tile_name t"] assms
    by (auto simp: capacity_tile_ok_def pin_counts_ok_def
        get_capacity_location_from_physical_pin_def
        get_physical_pin_from_capacity_location_def)
next
  fix st cl rp
  assume "st \<in> set (sub_tiles t)"
    and "is_in_range (capacity st) cl \<and> 0 \<le> rp \<and> rp < pins_per_inst st"
  then show "\<exists>p. get_physical_pin_from_capacity_location t rp cl = Inr p
               \<and> get_capacity_location_from_physical_pin t p = Inr (cl, rp)"
    using physical_pin_then_capacity_location [of "sub_tiles t" st cl rp "tile_name t" 0] assms
    by (auto simp: capacity_tile_ok_def pin_counts_ok_def
        get_capacity_location_from_physical_pin_def
        get_physical_pin_from_capacity_location_def)
qed

theorem C1_capacity_location_round_trip_witness:
  "capacity_tile_ok tile_6_4
   \<and> 0 \<le> (7::int) \<and> 7 < tile_num_pins tile_6_4
   \<and> get_capacity_location_from_physical_pin tile_6_4 7 = Inr (1, 1)
   \<and> get_physical_pin_from_capacity_location tile_6_4 1 1 = Inr 7
   \<and> mk_sub_tile 1 1 2 4 [] [] \<in> set (sub_tiles tile_6_4)
   \<and> is_in_range (capacity (mk_sub_tile 1 1 2 4 [] [])) 2
   \<and> (1::int) < pins_per_inst (mk_sub_tile 1 1 2 4 [] [])
   \<and> get_physical_pin_from_capacity_location tile_6_4 1 2 = Inr 9
   \<and> get_capacity_location_from_physical_pin tile_6_4 9 = Inr (2, 1)"
proof -
  have ok: "capacity_tile_ok tile_6_4"
    by (simp add: capacity_tile_ok_def pin_counts_ok_def tile_6_4_def mk_tile_def
        mk_sub_tile_def pins_per_inst_ok_def total_capacity_def)
  note rt = C1_capacity_location_round_trip [OF ok]
  have f: "get_capacity_location_from_physical_pin tile_6_4 7 = Inr (1, 1)"
    by (simp add: get_capacity_location_from_physical_pin_def tile_6_4_def mk_tile_def
        mk_sub_tile_def bind_res_def c_div_def c_mod_def c_quot_def total_capacity_def)
  have "\<exists>cl rp. get_capacity_location_from_physical_pin tile_6_4 7 = Inr (cl, rp)
               \<and> get_physical_pin_from_capacity_location tile_6_4 rp cl = Inr 7"
    using rt by (simp add: tile_6_4_def mk_tile_def)
  then have b: "get_physical_pin_from_capacity_location tile_6_4 1 1 = Inr 7"
    using f by simp
  have m: "mk_sub_tile 1 1 2 4 [] [] \<in> set (sub_tiles tile_6_4)"
    and r: "is_in_range (capacity (mk_sub_tile 1 1 2 4 [] [])) 2"
    and q: "(1::int) < pins_per_inst (mk_sub_tile 1 1 2 4 [] [])"
    by (simp_all add: tile_6_4_def mk_tile_def mk_sub_tile_def is_in_range_def
        pins_per_inst_def total_capacity_def)
  have i: "get_physical_pin_from_capacity_location tile_6_4 1 2 = Inr 9"
    by (simp add: get_physical_pin_from_capacity_location_def tile_6_4_def mk_tile_def
        mk_sub_tile_def bind_res_def c_div_def c_quot_def total_capacity_def is_in_range_def)
  have "\<exists>p. get_physical_pin_from_capacity_location tile_6_4 1 2 = Inr p
               \<and> get_capacity_location_from_physical_pin tile_6_4 p = Inr (2, 1)"
    using rt m r q by fastforce
  then have g: "get_capacity_location_from_physical_pin tile_6_4 9 = Inr (2, 1)"
    using i by simp
  show ?thesis using ok f b m r q i g by (simp add: tile_6_4_def mk_tile_def)
qed

subsection \<open>Sub-tile of a logical block\<close>

lemma sub_tile_index_loop_last:
  "sub_tile_index_loop lb sts idx =
     (if filter (lists_block lb) sts = [] then idx
      else st_index (last (filter (lists_block lb) sts)))"
  by (induction sts arbitrary: idx) (simp_all add: lists_block_def [symmetric])

lemma sub_tile_index_cap_loop_first:
  "sub_tile_index_cap_loop lb c sts =
     (if filter (lists_block_at lb c) sts = [] then OPEN
      else st_index (hd (filter (lists_block_at lb c) sts)))"
  by (induction sts) (simp_all add: lists_block_at_def [symmetric])

lemma indexed_member:
  assumes "sub_tiles_indexed t" "st \<in> set (sub_tiles t)"
  shows "st_index st \<noteq> OPEN \<and> vec_read (sub_tiles t) (st_index st) = Inr st"
proof -
  obtain i where i: "i < length (sub_tiles t)" "sub_tiles t ! i = st"
    using assms(2) by (auto simp: in_set_conv_nth)
  then have "st_index st = int i" using assms(1) by (auto simp: sub_tiles_indexed_def)
  then show ?thesis using i by (simp add: OPEN_def vec_read_def)
qed

text \<open>C10. In a tile whose sub-tiles carry their position as index: when some sub-tile
  lists the logical block, the two-argument \<open>get_logical_block_physical_sub_tile_index\<close>
  returns the index of the last sub-tile, in declaration order, that lists it, and
  \<open>get_physical_pin\<close> translates the logical pin through the direct pin map and the pin
  table of that last sub-tile; when some sub-tile lists the block and has the capacity
  slot in its range, the three-argument overload returns the index of the first such
  sub-tile.\<close>

theorem C10_sub_tile_of_block:
  assumes "sub_tiles_indexed t"
  shows "(filter (lists_block lb) (sub_tiles t) \<noteq> [] \<longrightarrow>
            get_logical_block_physical_sub_tile_index t lb =
              Inr (st_index (last (filter (lists_block lb) (sub_tiles t))))
          \<and> get_physical_pin t lb pin =
              bind_res (get_sub_tile_physical_pin
                          (st_index (last (filter (lists_block lb) (sub_tiles t)))) t lb pin)
                (vec_read (sub_tile_to_tile_pin_indices
                             (last (filter (lists_block lb) (sub_tiles t))))))
       \<and> (filter (lists_block_at lb c) (sub_tiles t) \<noteq> [] \<longrightarrow>
            get_logical_block_physical_sub_tile_index_cap t lb c =
              Inr (st_index (hd (filter (lists_block_at lb c) (sub_tiles t)))))"
proof (intro conjI impI)
  assume ne: "filter (lists_block lb) (sub_tiles t) \<noteq> []"
  then have "last (filter (lists_block lb) (sub_tiles t)) \<in> set (filter (lists_block lb) (sub_tiles t))"
    by (rule last_in_set)
  then have m: "last (filter (lists_block lb) (sub_tiles t)) \<in> set (sub_tiles t)" by simp
  note im = indexed_member [OF assms m]
  show two: "get_logical_block_physical_sub_tile_index t lb =
      Inr (st_index (last (filter (lists_block lb) (sub_tiles t))))"
    using ne im by (simp add: get_logical_block_physical_sub_tile_index_def
        sub_tile_index_loop_last)
  show "get_physical_pin t lb pin =
      bind_res (get_sub_tile_physical_pin
                  (st_index (last (filter (lists_block lb) (sub_tiles t)))) t lb pin)
        (vec_read (sub_tile_to_tile_pin_indices (last (filter (lists_block lb) (sub_tiles t)))))"
    using im by (simp add: get_physical_pin_def two bind_res_def split: sum.splits)
next
  assume ne: "filter (lists_block_at lb c) (sub_tiles t) \<noteq> []"
  then have "hd (filter (lists_block_at lb c) (sub_tiles t)) \<in> set (filter (lists_block_at lb c) (sub_tiles t))"
    by (rule hd_in_set)
  then have m: "hd (filter (lists_block_at lb c) (sub_tiles t)) \<in> set (sub_tiles t)" by simp
  show "get_logical_block_physical_sub_tile_index_cap t lb c =
      Inr (st_index (hd (filter (lists_block_at lb c) (sub_tiles t))))"
    using ne indexed_member [OF assms m]
    by (simp add: get_logical_block_physical_sub_tile_index_cap_def
        sub_tile_index_cap_loop_first)
qed

theorem C10_sub_tile_of_block_witness:
  "sub_tiles_indexed shared_block_tile
   \<and> filter (lists_block block_A) (sub_tiles shared_block_tile) \<noteq> []
   \<and> filter (lists_block_at block_A 0) (sub_tiles shared_block_tile) \<noteq> []
   \<and> get_logical_block_physical_sub_tile_index shared_block_tile block_A = Inr 1
   \<and> get_physical_pin shared_block_tile block_A 0 = Inr 2
   \<and> get_logical_block_physical_sub_tile_index_cap shared_block_tile block_A 0 = Inr 0"
proof -
  have h: "sub_tiles_indexed shared_block_tile"
    by (simp add: sub_tiles_indexed_def shared_block_tile_def less_Suc_eq)
  have f: "filter (lists_block block_A) (sub_tiles shared_block_tile) = sub_tiles shared_block_tile"
    by (simp add: shared_block_tile_def lists_block_def)
  have g: "filter (lists_block_at block_A 0) (sub_tiles shared_block_tile)
             = [hd (sub_tiles shared_block_tile)]"
    by (simp add: shared_block_tile_def lists_block_at_def is_in_range_def)
  show ?thesis
    using C10_sub_tile_of_block [OF h, of block_A 0 0] h
    unfolding f g
    by (simp add: shared_block_tile_def get_sub_tile_physical_pin_def bind_res_def
        vec_read_def block_A_def)
qed

subsection \<open>Sub-tile and capacity instance of a physical pin number\<close>

text \<open>C2 (the code at a failing input). In the tile with sub-tiles of 6 and 4 pins, pin 1
  lies in the pin range \<open>[0, 6)\<close> of the first sub-tile, yet
  \<open>get_sub_tile_from_pin_physical_num\<close> returns the second sub-tile (position 1): the
  loop does not stop at the owner, and the test succeeds again for the next sub-tile.\<close>

theorem C2_sub_tile_from_pin_overwritten:
  "get_sub_tile_from_pin_physical_num tile_6_4 1 = Inr 1
   \<and> pin_offset_before (sub_tiles tile_6_4) 0 \<le> 1
   \<and> 1 < pin_offset_before (sub_tiles tile_6_4) 0 + num_phy_pins (sub_tiles tile_6_4 ! 0)"
  by (simp add: get_sub_tile_from_pin_physical_num_def tile_6_4_def mk_tile_def
      mk_sub_tile_def pin_offset_before_def enumerate_eq_zip upt_rec)

text \<open>C3 (the code at a failing input). In the same tile, pin 9 belongs to the second
  sub-tile (pin offset 6, two pins per instance), so its capacity instance is
  \<open>(9 - 6) div 2 = 1\<close>; \<open>get_sub_tile_cap_from_pin_physical_num\<close> divides the
  tile-global number itself and returns 4.\<close>

theorem C3_sub_tile_cap_ignores_offset:
  "get_sub_tile_from_pin_physical_num tile_6_4 9 = Inr 1
   \<and> get_sub_tile_cap_from_pin_physical_num tile_6_4 9 = Inr 4
   \<and> (9 - pin_offset_before (sub_tiles tile_6_4) 1) div pins_per_inst (sub_tiles tile_6_4 ! 1) = 1"
  by (simp add: get_sub_tile_cap_from_pin_physical_num_def
      get_sub_tile_from_pin_physical_num_def tile_6_4_def mk_tile_def
      mk_sub_tile_def pin_offset_before_def pins_per_inst_def enumerate_eq_zip upt_rec
      bind_res_def vec_read_def c_div_def c_quot_def total_capacity_def VTR_ASSERT_def)

subsection \<open>Pins outside every port\<close>

text \<open>C7 (the code at a failing input). For a pin that lies in no port's range, port
  resolution returns the record with both port fields \<open>OPEN\<close>, and the naming function
  returns without failing, but the string it returns is spelled \<open><UNKOWN>\<close>.\<close>

theorem C7_unresolved_pin_name:
  "block_type_pin_index_to_pin_inst portless_pin_tile 1 =
     Inr \<lparr>sub_tile_index = 0, capacity_instance = 0, port_index = OPEN,
          pin_index_in_port = OPEN\<rparr>
   \<and> block_type_pin_index_to_name portless_pin_tile 1 = Inr ''<UNKOWN>''
   \<and> block_type_pin_index_to_name portless_pin_tile 1 \<noteq> Inr ''<UNKNOWN>''"
  by (simp add: block_type_pin_index_to_pin_inst_def block_type_pin_index_to_name_def
      get_pin_index_for_inst_def portless_pin_tile_def mk_tile_def mk_sub_tile_def
      bind_res_def vec_read_def c_div_def c_mod_def c_quot_def total_capacity_def VTR_ASSERT_def)

subsection \<open>Size of the flat address space\<close>

text \<open>C8 (the code at a failing input). For a tile with four root pins and two units of a
  block that has two root pins and five pins in its pin graph,
  \<open>get_tile_max_ptc\<close> in flat mode returns \<open>4 + 2 + 2 = 8\<close>, whereas the root pin
  count plus the pin-graph pin counts of all units (\<open>get_total_num_sub_tile_pins\<close>) is
  \<open>4 + 5 + 5 = 14\<close>.\<close>

theorem C8_flat_max_ptc_counts_root_pins_only:
  "get_tile_max_ptc shared_block_tile True = 8
   \<and> tile_num_pins shared_block_tile
       + sum_list (map get_total_num_sub_tile_pins (sub_tiles shared_block_tile)) = 14"
  by (simp add: get_tile_max_ptc_def get_total_num_tile_pins_def
      get_total_num_sub_tile_pins_def shared_block_tile_def block_A_def total_capacity_def)

subsection \<open>Pin direction\<close>

text \<open>C9 (the code at a failing input). For \<open>ipin = num_pins\<close>, which is not a root-level
  pin, the guard \<open>ipin > num_pins\<close> of \<open>is_opin\<close> does not hold and the function
  reads \<open>pin_class\<close> one element past its end; only from \<open>num_pins + 1\<close> on does it
  return false without reading.\<close>

theorem C9_is_opin_reads_past_the_end:
  "length (pin_class shared_block_tile) = nat (tile_num_pins shared_block_tile)
   \<and> is_opin (tile_num_pins shared_block_tile) shared_block_tile = Inl Undefined_Behaviour
   \<and> is_opin (tile_num_pins shared_block_tile + 1) shared_block_tile = Inr False"
  by (simp add: is_opin_def shared_block_tile_def bind_res_def vec_read_def)

subsection \<open>Primitive class numbering in closed form\<close>

lemma site_loop_skip:
  "\<not> (here \<and> cap_eq \<and> lb \<in> Some ` set sites) \<Longrightarrow>
   primitives_class_site_loop here lb cap_eq ln sites seen =
     Continue (seen + sum_list (map num_primitive_classes sites))"
  by (induction sites arbitrary: seen) (auto simp: add.assoc)

lemma site_loop_hit:
  "lb \<notin> set pre \<Longrightarrow>
   primitives_class_site_loop True (Some lb) True ln (pre @ lb # post) seen =
     Return (seen + sum_list (map num_primitive_classes pre) + ln)"
  by (induction pre arbitrary: seen) (auto simp: add.assoc)

lemma cap_loop_skip:
  "\<not> (here \<and> cap \<in> int ` set cs \<and> lb \<in> Some ` set sites) \<Longrightarrow>
   primitives_class_cap_loop here lb cap ln sites (cs @ rest) seen =
     primitives_class_cap_loop here lb cap ln sites rest
       (seen + int (length cs) * sum_list (map num_primitive_classes sites))"
proof (induction cs arbitrary: seen)
  case Nil
  then show ?case by simp
next
  case (Cons c cs)
  have a: "\<not> (here \<and> cap = int c \<and> lb \<in> Some ` set sites)" using Cons.prems by auto
  have b: "\<not> (here \<and> cap \<in> int ` set cs \<and> lb \<in> Some ` set sites)" using Cons.prems by auto
  show ?case
    using site_loop_skip [OF a, of ln seen] Cons.IH [OF b]
    by (simp add: distrib_right add.assoc)
qed

lemma cap_loop_hit:
  assumes "c < n" and "lb \<notin> set pre"
  shows "primitives_class_cap_loop True (Some lb) (int c) ln (pre @ lb # post) [0..<n] seen =
     Return (seen + int c * sum_list (map num_primitive_classes (pre @ lb # post))
               + sum_list (map num_primitive_classes pre) + ln)"
proof -
  have s: "[0..<n] = [0..<c] @ c # [Suc c..<n]"
    using assms(1) upt_add_eq_append [of 0 c "n - c"] by (simp add: upt_conv_Cons)
  have a: "\<not> (True \<and> int c \<in> int ` set [0..<c] \<and> Some lb \<in> Some ` set (pre @ lb # post))"
    by auto
  show ?thesis
    unfolding s cap_loop_skip [OF a]
    using site_loop_hit [OF assms(2), of ln post] by simp
qed

lemma sub_tile_loop_skip:
  "cur_st \<notin> Some ` fst ` set pre \<Longrightarrow>
   primitives_class_sub_tile_loop cur_st lb cap ln (pre @ rest) seen =
     primitives_class_sub_tile_loop cur_st lb cap ln rest
       (seen + sum_list (map (classes_of_sub_tile \<circ> snd) pre))"
proof (induction pre arbitrary: seen)
  case Nil
  then show ?case by simp
next
  case (Cons x pre)
  obtain j st where x: "x = (j, st)" by (cases x)
  have a: "\<not> (Some j = cur_st \<and> cap \<in> int ` set [0..<nat (total_capacity (capacity st))]
               \<and> lb \<in> Some ` set (equivalent_sites st))"
    using Cons.prems x by auto
  have b: "cur_st \<notin> Some ` fst ` set pre" using Cons.prems by auto
  show ?case
    using cap_loop_skip [OF a, of ln "[]" seen] Cons.IH [OF b]
    by (simp add: x classes_of_sub_tile_def classes_per_inst_def add.assoc)
qed

lemma enumerate_split:
  assumes "i < length xs"
  shows "enumerate 0 xs = enumerate 0 (take i xs) @ (i, xs ! i) # enumerate (Suc i) (drop (Suc i) xs)"
proof -
  have "enumerate 0 xs = enumerate 0 (take i xs @ xs ! i # drop (Suc i) xs)"
    using id_take_nth_drop [OF assms] by simp
  then show ?thesis using assms by (simp add: enumerate_append_eq min_def)
qed

lemma primitives_class_physical_num_closed:
  assumes "i < length (sub_tiles t)"
    and "c < nat (total_capacity (capacity (sub_tiles t ! i)))"
    and "k < length (equivalent_sites (sub_tiles t ! i))"
    and "distinct (equivalent_sites (sub_tiles t ! i))"
  shows "get_primitives_class_physical_num t (Some i)
           (Some (equivalent_sites (sub_tiles t ! i) ! k)) (int c) ln =
         unit_start (sub_tiles t) i c k + ln"
proof -
  define st where "st = sub_tiles t ! i"
  define sites where "sites = equivalent_sites st"
  have sp: "sites = take k sites @ sites ! k # drop (Suc k) sites"
    using assms(3) by (simp add: sites_def st_def id_take_nth_drop [symmetric])
  have nin: "sites ! k \<notin> set (take k sites)"
    using assms(3,4) unfolding sites_def st_def
    by (metis distinct_take id_take_nth_drop distinct_append distinct.simps(2) disjoint_iff
        list.set_intros(1) not_distinct_conv_prefix)
  have a: "Some i \<notin> Some ` fst ` set (enumerate 0 (take i (sub_tiles t)))"
    by (auto simp: in_set_enumerate_eq)
  have hit: "primitives_class_cap_loop True (Some (sites ! k)) (int c) ln sites
               [0..<nat (total_capacity (capacity st))] seen =
             Return (seen + int c * sum_list (map num_primitive_classes sites)
               + sum_list (map num_primitive_classes (take k sites)) + ln)" for seen
    using cap_loop_hit [OF _ nin, of c "nat (total_capacity (capacity st))" ln "drop (Suc k) sites" seen]
      assms(2) sp by (simp add: st_def)
  have m: "map (classes_of_sub_tile \<circ> snd) (enumerate 0 (take i (sub_tiles t)))
            = map classes_of_sub_tile (take i (sub_tiles t))"
    by (simp add: map_map [symmetric] del: map_map)
  show ?thesis
    unfolding get_primitives_class_physical_num_def enumerate_split [OF assms(1)]
      sub_tile_loop_skip [OF a]
    using hit
    by (simp add: m unit_start_def class_offset_before_def classes_per_inst_def
        site_offset_before_def st_def [symmetric] sites_def [symmetric])
qed

subsection \<open>Order of the units\<close>

lemma prefix_sum_locate:
  fixes xs :: "int list"
  assumes "\<forall>x\<in>set xs. 0 \<le> x" and "0 \<le> n" and "n < sum_list xs"
  shows "\<exists>k<length xs. sum_list (take k xs) \<le> n \<and> n < sum_list (take (Suc k) xs)"
  using assms
proof (induction xs arbitrary: n)
  case Nil
  then show ?case by simp
next
  case (Cons x xs)
  show ?case
  proof (cases "n < x")
    case True
    then show ?thesis using Cons.prems(2) by (intro exI [of _ 0]) simp
  next
    case False
    then have "\<exists>k<length xs. sum_list (take k xs) \<le> n - x \<and> n - x < sum_list (take (Suc k) xs)"
      using Cons.prems by (intro Cons.IH) simp_all
    then obtain k where "k < length xs" "sum_list (take k xs) \<le> n - x"
      "n - x < sum_list (take (Suc k) xs)" by blast
    then show ?thesis by (intro exI [of _ "Suc k"]) simp
  qed
qed

lemma prefix_sum_mono:
  fixes xs :: "int list"
  assumes "\<forall>x\<in>set xs. 0 \<le> x" and "j \<le> i"
  shows "sum_list (take j xs) \<le> sum_list (take i xs)"
proof -
  have "take i xs = take j xs @ take (i - j) (drop j xs)"
    using assms(2) by (metis le_add_diff_inverse take_add)
  moreover have "0 \<le> sum_list (take (i - j) (drop j xs))"
    using assms(1) by (intro sum_list_nonneg) (auto dest!: in_set_takeD in_set_dropD)
  ultimately show ?thesis by simp
qed

lemma num_primitive_classes_nonneg: "0 \<le> num_primitive_classes lb"
  by (simp add: num_primitive_classes_def)

lemma classes_per_inst_nonneg: "0 \<le> classes_per_inst st"
  unfolding classes_per_inst_def
  by (intro sum_list_nonneg) (auto simp: num_primitive_classes_nonneg)

lemma classes_of_sub_tile_nonneg: "0 \<le> classes_of_sub_tile st"
  by (simp add: classes_of_sub_tile_def classes_per_inst_nonneg)

lemma class_offset_Suc:
  "i < length sts \<Longrightarrow>
   class_offset_before sts (Suc i) = class_offset_before sts i + classes_of_sub_tile (sts ! i)"
  by (simp add: class_offset_before_def take_Suc_conv_app_nth)

lemma class_offset_mono: "j \<le> i \<Longrightarrow> class_offset_before sts j \<le> class_offset_before sts i"
  unfolding class_offset_before_def take_map [symmetric]
  by (intro prefix_sum_mono) (auto simp: classes_of_sub_tile_nonneg)

lemma site_offset_Suc:
  "k < length (equivalent_sites st) \<Longrightarrow>
   site_offset_before st (Suc k) =
     site_offset_before st k + num_primitive_classes (equivalent_sites st ! k)"
  by (simp add: site_offset_before_def take_Suc_conv_app_nth)

lemma site_offset_mono: "j \<le> k \<Longrightarrow> site_offset_before st j \<le> site_offset_before st k"
  unfolding site_offset_before_def take_map [symmetric]
  by (intro prefix_sum_mono) (auto simp: num_primitive_classes_nonneg)

lemma site_offset_le: "site_offset_before st k \<le> classes_per_inst st"
proof -
  have "site_offset_before st k \<le> site_offset_before st (max k (length (equivalent_sites st)))"
    by (intro site_offset_mono) simp
  then show ?thesis by (simp add: site_offset_before_def classes_per_inst_def)
qed

lemma site_offset_0: "site_offset_before st 0 = 0"
  by (simp add: site_offset_before_def)

text \<open>Unit starts grow with the site, with the instance and with the sub-tile.\<close>

lemma unit_end_le_next_cap:
  "unit_start sts i c k' \<le> unit_start sts i (Suc c) 0"
  using site_offset_le [of "sts ! i" k'] by (simp add: unit_start_def site_offset_0 distrib_right)

lemma unit_start_cap_mono:
  assumes "c' \<le> c"
  shows "unit_start sts i c' 0 \<le> unit_start sts i c k"
proof -
  have "int c' * classes_per_inst (sts ! i) \<le> int c * classes_per_inst (sts ! i)"
    using assms classes_per_inst_nonneg by (intro mult_right_mono) simp_all
  moreover have "0 \<le> site_offset_before (sts ! i) k"
    using site_offset_mono [of 0 k "sts ! i"] by (simp add: site_offset_0)
  ultimately show ?thesis by (simp add: unit_start_def site_offset_0)
qed

lemma unit_start_next_sub_tile:
  assumes "j < length sts"
  shows "unit_start sts j (nat (total_capacity (capacity (sts ! j)))) 0 = class_offset_before sts (Suc j)"
  using assms by (simp add: unit_start_def site_offset_0 class_offset_Suc classes_of_sub_tile_def)

lemma unit_start_ge_offset: "class_offset_before sts i \<le> unit_start sts i c k"
  using unit_start_cap_mono [of 0 c sts i k] by (simp add: unit_start_def site_offset_0)

text \<open>Every class number of the flat space lies in the range of some unit.\<close>

lemma tile_num_primitive_classes_closed:
  assumes "class_tile_ok t"
  shows "get_tile_num_primitive_classes t = class_offset_before (sub_tiles t) (length (sub_tiles t))"
proof -
  have "sum_list (map (\<lambda>eq_site. num_primitive_classes eq_site * total_capacity (capacity st))
                    (equivalent_sites st)) = classes_of_sub_tile st"
    if "st \<in> set (sub_tiles t)" for st
  proof -
    have "0 \<le> total_capacity (capacity st)"
      using assms that by (auto simp: class_tile_ok_def class_sites_ok_def total_capacity_def)
    then show ?thesis
      by (simp add: classes_of_sub_tile_def classes_per_inst_def sum_list_mult_const mult.commute)
  qed
  then have eq: "map (\<lambda>st. sum_list (map (\<lambda>eq_site. num_primitive_classes eq_site * total_capacity (capacity st))
                    (equivalent_sites st))) (sub_tiles t) = map classes_of_sub_tile (sub_tiles t)"
    by (intro map_cong [OF refl]) blast
  show ?thesis
    unfolding get_tile_num_primitive_classes_def class_offset_before_def eq by simp
qed

lemma class_unit_exists:
  assumes "class_tile_ok t" and "0 \<le> n" and "n < get_tile_num_primitive_classes t"
  shows "\<exists>i c k. i < length (sub_tiles t)
           \<and> c < nat (total_capacity (capacity (sub_tiles t ! i)))
           \<and> k < length (equivalent_sites (sub_tiles t ! i))
           \<and> unit_start (sub_tiles t) i c k \<le> n
           \<and> n < unit_start (sub_tiles t) i c (Suc k)"
proof -
  define sts where "sts = sub_tiles t"
  have "n < sum_list (map classes_of_sub_tile sts)"
    using assms(3) tile_num_primitive_classes_closed [OF assms(1)]
    by (simp add: class_offset_before_def sts_def)
  then have "\<exists>i<length (map classes_of_sub_tile sts).
      sum_list (take i (map classes_of_sub_tile sts)) \<le> n
      \<and> n < sum_list (take (Suc i) (map classes_of_sub_tile sts))"
    using assms(2) by (intro prefix_sum_locate) (auto simp: classes_of_sub_tile_nonneg)
  then obtain i where i: "i < length sts" and i1: "class_offset_before sts i \<le> n"
    and i2: "n < class_offset_before sts (Suc i)"
    by (auto simp: class_offset_before_def take_map)
  define st where "st = sts ! i"
  define m where "m = nat (total_capacity (capacity st))"
  define r where "r = n - class_offset_before sts i"
  have r0: "0 \<le> r" using i1 by (simp add: r_def)
  have "r < int m * classes_per_inst st"
    using i2 class_offset_Suc [OF i] by (simp add: r_def classes_of_sub_tile_def st_def m_def)
  then have "r < sum_list (replicate m (classes_per_inst st))"
    by (simp add: sum_list_replicate)
  then have "\<exists>c<length (replicate m (classes_per_inst st)).
      sum_list (take c (replicate m (classes_per_inst st))) \<le> r
      \<and> r < sum_list (take (Suc c) (replicate m (classes_per_inst st)))"
    using r0 by (intro prefix_sum_locate) (auto simp: classes_per_inst_nonneg)
  then obtain c where c: "c < m"
    and c1': "sum_list (take c (replicate m (classes_per_inst st))) \<le> r"
    and c2': "r < sum_list (take (Suc c) (replicate m (classes_per_inst st)))"
    by auto
  have c1: "int c * classes_per_inst st \<le> r"
    using c c1' by (simp add: sum_list_replicate min_def)
  have "min (Suc c) m = Suc c" using c by simp
  then have c2: "r < int (Suc c) * classes_per_inst st"
    using c2' by (simp only: take_replicate sum_list_replicate)
  define q where "q = r - int c * classes_per_inst st"
  have q0: "0 \<le> q" using c1 by (simp add: q_def)
  have "q < sum_list (map num_primitive_classes (equivalent_sites st))"
    using c2 by (simp add: q_def classes_per_inst_def distrib_right)
  then have "\<exists>k<length (map num_primitive_classes (equivalent_sites st)).
      sum_list (take k (map num_primitive_classes (equivalent_sites st))) \<le> q
      \<and> q < sum_list (take (Suc k) (map num_primitive_classes (equivalent_sites st)))"
    using q0 by (intro prefix_sum_locate) (auto simp: num_primitive_classes_nonneg)
  then obtain k where k: "k < length (equivalent_sites st)"
    and k1: "site_offset_before st k \<le> q" and k2: "q < site_offset_before st (Suc k)"
    by (auto simp: site_offset_before_def take_map)
  have "unit_start sts i c k \<le> n" "n < unit_start sts i c (Suc k)"
    using k1 k2 by (simp_all add: unit_start_def q_def r_def st_def)
  then show ?thesis using i c k unfolding sts_def st_def m_def by blast
qed

lemma class_sites_okD:
  assumes "class_tile_ok t" "j < length (sub_tiles t)"
  shows "0 < nat (total_capacity (capacity (sub_tiles t ! j)))"
    and "0 < length (equivalent_sites (sub_tiles t ! j))"
    and "distinct (equivalent_sites (sub_tiles t ! j))"
  using assms by (auto simp: class_tile_ok_def class_sites_ok_def total_capacity_def)

lemma unit_start_Suc_site:
  "k < length (equivalent_sites (sts ! i)) \<Longrightarrow>
   unit_start sts i c (Suc k) =
     unit_start sts i c k + num_primitive_classes (equivalent_sites (sts ! i) ! k)"
  by (simp add: unit_start_def site_offset_Suc)

lemma unit_start_Suc_cap:
  "unit_start sts i (Suc c) 0 = unit_start sts i c 0 + classes_per_inst (sts ! i)"
  by (simp add: unit_start_def distrib_right)

lemma unit_start_0: "unit_start sts i 0 0 = class_offset_before sts i"
  by (simp add: unit_start_def site_offset_0)

lemma upt_split: "c < m \<Longrightarrow> [0..<m] = [0..<c] @ c # [Suc c..<m]"
  using upt_add_eq_append [of 0 c "m - c"] by (simp add: upt_conv_Cons)

subsection \<open>The scan for the logical block\<close>

lemma block_site_skip:
  "\<forall>s\<in>set pre. \<not> (get_primitives_class_physical_num t (Some i) (Some s) (int c) 0 \<le> n
       \<and> n < get_primitives_class_physical_num t (Some i) (Some s) (int c) 0
               + num_primitive_classes s) \<Longrightarrow>
   block_from_class_site_loop t n i c (pre @ rest) = block_from_class_site_loop t n i c rest"
  by (induction pre) (auto simp: Let_def)

lemma block_cap_skip:
  "\<forall>c\<in>set pre. block_from_class_site_loop t n i c (equivalent_sites st) = None \<Longrightarrow>
   block_from_class_cap_loop t n i st (pre @ rest) = block_from_class_cap_loop t n i st rest"
  by (induction pre) simp_all

lemma block_sub_tile_skip:
  "\<forall>x\<in>set pre. block_from_class_cap_loop t n (fst x) (snd x)
       [0..<nat (total_capacity (capacity (snd x)))] = None \<Longrightarrow>
   block_from_class_loop t n (pre @ rest) = block_from_class_loop t n rest"
  by (induction pre) auto

lemma block_site_fail:
  assumes ok: "class_tile_ok t" and j: "j < length (sub_tiles t)"
    and c: "c < nat (total_capacity (capacity (sub_tiles t ! j)))"
    and K: "K \<le> length (equivalent_sites (sub_tiles t ! j))"
    and le: "unit_start (sub_tiles t) j c K \<le> n"
  shows "\<forall>s\<in>set (take K (equivalent_sites (sub_tiles t ! j))).
     \<not> (get_primitives_class_physical_num t (Some j) (Some s) (int c) 0 \<le> n
       \<and> n < get_primitives_class_physical_num t (Some j) (Some s) (int c) 0
               + num_primitive_classes s)"
proof
  fix s assume "s \<in> set (take K (equivalent_sites (sub_tiles t ! j)))"
  then obtain k where k: "k < K" and s: "s = equivalent_sites (sub_tiles t ! j) ! k"
    using K by (auto simp: in_set_conv_nth)
  have kl: "k < length (equivalent_sites (sub_tiles t ! j))" using k K by simp
  have gp: "get_primitives_class_physical_num t (Some j) (Some s) (int c) 0
              = unit_start (sub_tiles t) j c k"
    using primitives_class_physical_num_closed [OF j c kl class_sites_okD(3) [OF ok j], of 0]
    by (simp add: s)
  have "unit_start (sub_tiles t) j c (Suc k) \<le> unit_start (sub_tiles t) j c K"
  proof (cases "Suc k = K")
    case True then show ?thesis by simp
  next
    case False
    then have "k < K - 1" using k by simp
    then show ?thesis
      using site_offset_mono [of "Suc k" K "sub_tiles t ! j"] by (simp add: unit_start_def)
  qed
  then have "unit_start (sub_tiles t) j c k + num_primitive_classes s \<le> n"
    using le unit_start_Suc_site [OF kl, where c = c] by (simp add: s)
  then show "\<not> (get_primitives_class_physical_num t (Some j) (Some s) (int c) 0 \<le> n
       \<and> n < get_primitives_class_physical_num t (Some j) (Some s) (int c) 0
               + num_primitive_classes s)"
    by (simp add: gp)
qed

lemma block_site_none:
  assumes ok: "class_tile_ok t" and j: "j < length (sub_tiles t)"
    and c: "c < nat (total_capacity (capacity (sub_tiles t ! j)))"
    and le: "unit_start (sub_tiles t) j (Suc c) 0 \<le> n"
  shows "block_from_class_site_loop t n j c (equivalent_sites (sub_tiles t ! j)) = None"
proof -
  have "unit_start (sub_tiles t) j c (length (equivalent_sites (sub_tiles t ! j))) \<le> n"
    using unit_end_le_next_cap [of "sub_tiles t" j c] le by (rule order_trans)
  then have "\<forall>s\<in>set (take (length (equivalent_sites (sub_tiles t ! j)))
                    (equivalent_sites (sub_tiles t ! j))).
     \<not> (get_primitives_class_physical_num t (Some j) (Some s) (int c) 0 \<le> n
       \<and> n < get_primitives_class_physical_num t (Some j) (Some s) (int c) 0
               + num_primitive_classes s)"
    by (intro block_site_fail [OF ok j c]) simp_all
  then show ?thesis
    using block_site_skip [of "equivalent_sites (sub_tiles t ! j)" t j c n "[]"] by simp
qed

lemma block_cap_none:
  assumes ok: "class_tile_ok t" and j: "j < length (sub_tiles t)"
    and le: "class_offset_before (sub_tiles t) (Suc j) \<le> n"
  shows "block_from_class_cap_loop t n j (sub_tiles t ! j)
           [0..<nat (total_capacity (capacity (sub_tiles t ! j)))] = None"
proof -
  have "block_from_class_site_loop t n j c (equivalent_sites (sub_tiles t ! j)) = None"
    if "c < nat (total_capacity (capacity (sub_tiles t ! j)))" for c
  proof -
    have "unit_start (sub_tiles t) j (Suc c) 0
            \<le> unit_start (sub_tiles t) j (nat (total_capacity (capacity (sub_tiles t ! j)))) 0"
      using that by (intro unit_start_cap_mono) simp
    then have "unit_start (sub_tiles t) j (Suc c) 0 \<le> n"
      using le unit_start_next_sub_tile [OF j] by simp
    then show ?thesis by (rule block_site_none [OF ok j that])
  qed
  then show ?thesis
    using block_cap_skip [of "[0..<nat (total_capacity (capacity (sub_tiles t ! j)))]"
        t n j "sub_tiles t ! j" "[]"] by simp
qed

lemma block_from_class_found:
  assumes ok: "class_tile_ok t" and i: "i < length (sub_tiles t)"
    and c: "c < nat (total_capacity (capacity (sub_tiles t ! i)))"
    and k: "k < length (equivalent_sites (sub_tiles t ! i))"
    and lo: "unit_start (sub_tiles t) i c k \<le> n"
    and hi: "n < unit_start (sub_tiles t) i c (Suc k)"
  shows "get_logical_block_from_class_physical_num t n
           = Some (equivalent_sites (sub_tiles t ! i) ! k)"
proof -
  define st where "st = sub_tiles t ! i"
  define sites where "sites = equivalent_sites st"
  define m where "m = nat (total_capacity (capacity st))"
  have gp: "get_primitives_class_physical_num t (Some i) (Some (sites ! k)) (int c) 0
              = unit_start (sub_tiles t) i c k"
    using primitives_class_physical_num_closed [OF i c k class_sites_okD(3) [OF ok i], of 0]
    by (simp add: sites_def st_def)
  have sz: "unit_start (sub_tiles t) i c k + num_primitive_classes (sites ! k)
              = unit_start (sub_tiles t) i c (Suc k)"
    using unit_start_Suc_site [OF k, where c = c] by (simp add: sites_def st_def)
  have sp: "sites = take k sites @ sites ! k # drop (Suc k) sites"
    using k by (simp add: sites_def st_def id_take_nth_drop [symmetric])
  have "\<forall>s\<in>set (take k sites).
     \<not> (get_primitives_class_physical_num t (Some i) (Some s) (int c) 0 \<le> n
       \<and> n < get_primitives_class_physical_num t (Some i) (Some s) (int c) 0
               + num_primitive_classes s)"
    unfolding sites_def st_def using k lo by (intro block_site_fail [OF ok i c]) simp_all
  then have "block_from_class_site_loop t n i c (take k sites @ sites ! k # drop (Suc k) sites)
      = block_from_class_site_loop t n i c (sites ! k # drop (Suc k) sites)"
    by (rule block_site_skip)
  then have site: "block_from_class_site_loop t n i c sites = Some (sites ! k)"
    using sp gp sz lo hi by (simp add: Let_def)
  have "\<forall>c'\<in>set [0..<c]. block_from_class_site_loop t n i c' (equivalent_sites st) = None"
  proof
    fix c' assume "c' \<in> set [0..<c]"
    then have c': "c' < c" by simp
    have "unit_start (sub_tiles t) i (Suc c') 0 \<le> unit_start (sub_tiles t) i c k"
      using c' by (intro unit_start_cap_mono) simp
    then have "unit_start (sub_tiles t) i (Suc c') 0 \<le> n" using lo by simp
    then show "block_from_class_site_loop t n i c' (equivalent_sites st) = None"
      unfolding st_def using c' c by (intro block_site_none [OF ok i]) simp_all
  qed
  then have "block_from_class_cap_loop t n i st ([0..<c] @ c # [Suc c..<m])
      = block_from_class_cap_loop t n i st (c # [Suc c..<m])"
    by (rule block_cap_skip)
  then have cap: "block_from_class_cap_loop t n i st [0..<m] = Some (sites ! k)"
    using upt_split [of c m] c site by (simp add: m_def st_def sites_def)
  have "\<forall>x\<in>set (enumerate 0 (take i (sub_tiles t))).
      block_from_class_cap_loop t n (fst x) (snd x)
        [0..<nat (total_capacity (capacity (snd x)))] = None"
  proof
    fix x assume "x \<in> set (enumerate 0 (take i (sub_tiles t)))"
    then have j: "fst x < i" and x: "snd x = sub_tiles t ! fst x"
      using i by (auto simp: in_set_enumerate_eq)
    have jl: "fst x < length (sub_tiles t)" using j i by simp
    have "class_offset_before (sub_tiles t) (Suc (fst x)) \<le> class_offset_before (sub_tiles t) i"
      using j by (intro class_offset_mono) simp
    also have "\<dots> \<le> unit_start (sub_tiles t) i c k" by (rule unit_start_ge_offset)
    finally have "class_offset_before (sub_tiles t) (Suc (fst x)) \<le> n" using lo by simp
    then show "block_from_class_cap_loop t n (fst x) (snd x)
        [0..<nat (total_capacity (capacity (snd x)))] = None"
      unfolding x by (rule block_cap_none [OF ok jl])
  qed
  then have "block_from_class_loop t n
      (enumerate 0 (take i (sub_tiles t)) @ (i, st) # enumerate (Suc i) (drop (Suc i) (sub_tiles t)))
      = block_from_class_loop t n ((i, st) # enumerate (Suc i) (drop (Suc i) (sub_tiles t)))"
    by (rule block_sub_tile_skip)
  then show ?thesis
    unfolding get_logical_block_from_class_physical_num_def enumerate_split [OF i]
    using cap by (simp add: st_def m_def sites_def)
qed

lemma vec_read_first: "xs \<noteq> [] \<Longrightarrow> vec_read xs 0 = Inr (xs ! 0)"
  by (simp add: vec_read_def)

lemma first_site_start:
  assumes ok: "class_tile_ok t" and j: "j < length (sub_tiles t)"
    and c: "c < nat (total_capacity (capacity (sub_tiles t ! j)))"
  shows "get_primitives_class_physical_num t (Some j)
           (Some (equivalent_sites (sub_tiles t ! j) ! 0)) (int c) 0
         = unit_start (sub_tiles t) j c 0"
  using primitives_class_physical_num_closed
    [OF j c class_sites_okD(2) [OF ok j] class_sites_okD(3) [OF ok j], of 0]
  by simp

subsection \<open>The scan for the capacity instance\<close>

lemma cap_cap_skip:
  "equivalent_sites st \<noteq> [] \<Longrightarrow>
   \<forall>c\<in>set pre.
     \<not> (get_primitives_class_physical_num t (Some i) (Some (equivalent_sites st ! 0)) (int c) 0
           \<le> n
        \<and> n < get_primitives_class_physical_num t (Some i) (Some (equivalent_sites st ! 0))
                 (int c) 0
               + sum_list (map num_primitive_classes (equivalent_sites st))) \<Longrightarrow>
   cap_from_class_cap_loop t n i st (pre @ rest) = cap_from_class_cap_loop t n i st rest"
  by (induction pre) (auto simp: Let_def bind_res_def vec_read_first)

lemma cap_sub_tile_skip:
  "\<forall>x\<in>set pre. cap_from_class_cap_loop t n (fst x) (snd x)
       [0..<nat (total_capacity (capacity (snd x)))] = Inr None \<Longrightarrow>
   cap_from_class_loop t n (pre @ rest) = cap_from_class_loop t n rest"
  by (induction pre) (auto simp: bind_res_def)

lemma cap_fail:
  assumes ok: "class_tile_ok t" and j: "j < length (sub_tiles t)"
    and C: "C \<le> nat (total_capacity (capacity (sub_tiles t ! j)))"
    and le: "unit_start (sub_tiles t) j C 0 \<le> n"
  shows "\<forall>c\<in>set [0..<C].
     \<not> (get_primitives_class_physical_num t (Some j)
            (Some (equivalent_sites (sub_tiles t ! j) ! 0)) (int c) 0 \<le> n
        \<and> n < get_primitives_class_physical_num t (Some j)
                 (Some (equivalent_sites (sub_tiles t ! j) ! 0)) (int c) 0
               + sum_list (map num_primitive_classes (equivalent_sites (sub_tiles t ! j))))"
proof
  fix c assume "c \<in> set [0..<C]"
  then have c: "c < C" by simp
  then have cm: "c < nat (total_capacity (capacity (sub_tiles t ! j)))" using C by simp
  have "unit_start (sub_tiles t) j (Suc c) 0 \<le> unit_start (sub_tiles t) j C 0"
    using c by (intro unit_start_cap_mono) simp
  then have "unit_start (sub_tiles t) j c 0 + classes_per_inst (sub_tiles t ! j) \<le> n"
    using le by (simp add: unit_start_Suc_cap)
  then show "\<not> (get_primitives_class_physical_num t (Some j)
            (Some (equivalent_sites (sub_tiles t ! j) ! 0)) (int c) 0 \<le> n
        \<and> n < get_primitives_class_physical_num t (Some j)
                 (Some (equivalent_sites (sub_tiles t ! j) ! 0)) (int c) 0
               + sum_list (map num_primitive_classes (equivalent_sites (sub_tiles t ! j))))"
    by (simp add: first_site_start [OF ok j cm] classes_per_inst_def)
qed

lemma cap_from_class_found:
  assumes ok: "class_tile_ok t" and i: "i < length (sub_tiles t)"
    and c: "c < nat (total_capacity (capacity (sub_tiles t ! i)))"
    and k: "k < length (equivalent_sites (sub_tiles t ! i))"
    and lo: "unit_start (sub_tiles t) i c k \<le> n"
    and hi: "n < unit_start (sub_tiles t) i c (Suc k)"
  shows "get_sub_tile_cap_from_class_physical_num t n = Inr (int c)"
proof -
  define st where "st = sub_tiles t ! i"
  define m where "m = nat (total_capacity (capacity st))"
  have ne: "equivalent_sites st \<noteq> []" using k by (auto simp: st_def)
  have lo': "unit_start (sub_tiles t) i c 0 \<le> n"
    using unit_start_cap_mono [of c c "sub_tiles t" i k] lo by simp
  have hi': "n < unit_start (sub_tiles t) i c 0 + classes_per_inst st"
    using hi unit_end_le_next_cap [of "sub_tiles t" i c "Suc k"]
    by (simp add: unit_start_Suc_cap st_def)
  have "cap_from_class_cap_loop t n i st ([0..<c] @ c # [Suc c..<m])
          = cap_from_class_cap_loop t n i st (c # [Suc c..<m])"
    using cap_fail [OF ok i _ lo'] c unfolding st_def
    by (intro cap_cap_skip ne [unfolded st_def]) simp_all
  then have cap: "cap_from_class_cap_loop t n i st [0..<m] = Inr (Some (int c))"
    using upt_split [of c m] c lo' hi' first_site_start [OF ok i c] ne
    by (simp add: m_def st_def Let_def bind_res_def vec_read_first classes_per_inst_def)
  have "\<forall>x\<in>set (enumerate 0 (take i (sub_tiles t))).
      cap_from_class_cap_loop t n (fst x) (snd x)
        [0..<nat (total_capacity (capacity (snd x)))] = Inr None"
  proof
    fix x assume "x \<in> set (enumerate 0 (take i (sub_tiles t)))"
    then have j: "fst x < i" and x: "snd x = sub_tiles t ! fst x"
      using i by (auto simp: in_set_enumerate_eq)
    have jl: "fst x < length (sub_tiles t)" using j i by simp
    have "class_offset_before (sub_tiles t) (Suc (fst x)) \<le> class_offset_before (sub_tiles t) i"
      using j by (intro class_offset_mono) simp
    also have "\<dots> \<le> unit_start (sub_tiles t) i c k" by (rule unit_start_ge_offset)
    finally have "unit_start (sub_tiles t) (fst x)
        (nat (total_capacity (capacity (sub_tiles t ! fst x)))) 0 \<le> n"
      using lo unit_start_next_sub_tile [OF jl] by simp
    then have "\<forall>c\<in>set [0..<nat (total_capacity (capacity (sub_tiles t ! fst x)))].
     \<not> (get_primitives_class_physical_num t (Some (fst x))
            (Some (equivalent_sites (sub_tiles t ! fst x) ! 0)) (int c) 0 \<le> n
        \<and> n < get_primitives_class_physical_num t (Some (fst x))
                 (Some (equivalent_sites (sub_tiles t ! fst x) ! 0)) (int c) 0
               + sum_list (map num_primitive_classes (equivalent_sites (sub_tiles t ! fst x))))"
      by (intro cap_fail [OF ok jl]) simp_all
    moreover have "equivalent_sites (sub_tiles t ! fst x) \<noteq> []"
      using class_sites_okD(2) [OF ok jl] by auto
    ultimately show "cap_from_class_cap_loop t n (fst x) (snd x)
        [0..<nat (total_capacity (capacity (snd x)))] = Inr None"
      unfolding x
      using cap_cap_skip [of "sub_tiles t ! fst x"
          "[0..<nat (total_capacity (capacity (sub_tiles t ! fst x)))]" t "fst x" n "[]"]
      by simp
  qed
  then have "cap_from_class_loop t n
      (enumerate 0 (take i (sub_tiles t)) @ (i, st) # enumerate (Suc i) (drop (Suc i) (sub_tiles t)))
      = cap_from_class_loop t n ((i, st) # enumerate (Suc i) (drop (Suc i) (sub_tiles t)))"
    by (rule cap_sub_tile_skip)
  then show ?thesis
    unfolding get_sub_tile_cap_from_class_physical_num_def enumerate_split [OF i]
    using cap by (simp add: st_def m_def bind_res_def)
qed

subsection \<open>The scan for the sub-tile\<close>

lemma sub_tile_skip:
  "\<forall>x\<in>set pre. equivalent_sites (snd x) \<noteq> []
     \<and> \<not> (get_primitives_class_physical_num t (Some (fst x))
              (Some (equivalent_sites (snd x) ! 0)) 0 0 \<le> n
          \<and> n < get_primitives_class_physical_num t (Some (fst x))
                   (Some (equivalent_sites (snd x) ! 0)) 0 0
                 + sum_list (map (\<lambda>sub_tile_cap.
                       sum_list (map num_primitive_classes (equivalent_sites (snd x))))
                     [0..<nat (total_capacity (capacity (snd x)))])) \<Longrightarrow>
   sub_tile_from_class_loop t n (pre @ rest) = sub_tile_from_class_loop t n rest"
  by (induction pre) (auto simp: Let_def bind_res_def vec_read_first)

lemma sub_tile_range:
  assumes ok: "class_tile_ok t" and j: "j < length (sub_tiles t)"
  shows "get_primitives_class_physical_num t (Some j)
           (Some (equivalent_sites (sub_tiles t ! j) ! 0)) 0 0
         = class_offset_before (sub_tiles t) j"
    and "class_offset_before (sub_tiles t) j
          + sum_list (map (\<lambda>sub_tile_cap.
                       sum_list (map num_primitive_classes (equivalent_sites (sub_tiles t ! j))))
                     [0..<nat (total_capacity (capacity (sub_tiles t ! j)))])
         = class_offset_before (sub_tiles t) (Suc j)"
proof -
  show "get_primitives_class_physical_num t (Some j)
           (Some (equivalent_sites (sub_tiles t ! j) ! 0)) 0 0
         = class_offset_before (sub_tiles t) j"
    using first_site_start [OF ok j class_sites_okD(1) [OF ok j]] by (simp add: unit_start_0)
  show "class_offset_before (sub_tiles t) j
          + sum_list (map (\<lambda>sub_tile_cap.
                       sum_list (map num_primitive_classes (equivalent_sites (sub_tiles t ! j))))
                     [0..<nat (total_capacity (capacity (sub_tiles t ! j)))])
         = class_offset_before (sub_tiles t) (Suc j)"
    by (simp add: class_offset_Suc [OF j] classes_of_sub_tile_def classes_per_inst_def
        sum_list_triv)
qed

lemma sub_tile_from_class_found:
  assumes ok: "class_tile_ok t" and i: "i < length (sub_tiles t)"
    and c: "c < nat (total_capacity (capacity (sub_tiles t ! i)))"
    and k: "k < length (equivalent_sites (sub_tiles t ! i))"
    and lo: "unit_start (sub_tiles t) i c k \<le> n"
    and hi: "n < unit_start (sub_tiles t) i c (Suc k)"
  shows "get_sub_tile_from_class_physical_num t n = Inr (Some i)"
proof -
  define st where "st = sub_tiles t ! i"
  have ne: "equivalent_sites st \<noteq> []" using k by (auto simp: st_def)
  have lo': "class_offset_before (sub_tiles t) i \<le> n"
    using unit_start_ge_offset [of "sub_tiles t" i c k] lo by simp
  have "unit_start (sub_tiles t) i c (Suc k) \<le> unit_start (sub_tiles t) i (Suc c) 0"
    by (rule unit_end_le_next_cap)
  also have "\<dots> \<le> unit_start (sub_tiles t) i (nat (total_capacity (capacity (sub_tiles t ! i)))) 0"
    using c by (intro unit_start_cap_mono) simp
  also have "\<dots> = class_offset_before (sub_tiles t) (Suc i)"
    by (rule unit_start_next_sub_tile [OF i])
  finally have hi': "n < class_offset_before (sub_tiles t) (Suc i)" using hi by simp
  have "\<forall>x\<in>set (enumerate 0 (take i (sub_tiles t))). equivalent_sites (snd x) \<noteq> []
     \<and> \<not> (get_primitives_class_physical_num t (Some (fst x))
              (Some (equivalent_sites (snd x) ! 0)) 0 0 \<le> n
          \<and> n < get_primitives_class_physical_num t (Some (fst x))
                   (Some (equivalent_sites (snd x) ! 0)) 0 0
                 + sum_list (map (\<lambda>sub_tile_cap.
                       sum_list (map num_primitive_classes (equivalent_sites (snd x))))
                     [0..<nat (total_capacity (capacity (snd x)))]))"
  proof
    fix x assume "x \<in> set (enumerate 0 (take i (sub_tiles t)))"
    then have j: "fst x < i" and x: "snd x = sub_tiles t ! fst x"
      using i by (auto simp: in_set_enumerate_eq)
    have jl: "fst x < length (sub_tiles t)" using j i by simp
    have "class_offset_before (sub_tiles t) (Suc (fst x)) \<le> class_offset_before (sub_tiles t) i"
      using j by (intro class_offset_mono) simp
    then have "class_offset_before (sub_tiles t) (Suc (fst x)) \<le> n" using lo' by simp
    moreover have "equivalent_sites (sub_tiles t ! fst x) \<noteq> []"
      using class_sites_okD(2) [OF ok jl] by auto
    ultimately show "equivalent_sites (snd x) \<noteq> []
     \<and> \<not> (get_primitives_class_physical_num t (Some (fst x))
              (Some (equivalent_sites (snd x) ! 0)) 0 0 \<le> n
          \<and> n < get_primitives_class_physical_num t (Some (fst x))
                   (Some (equivalent_sites (snd x) ! 0)) 0 0
                 + sum_list (map (\<lambda>sub_tile_cap.
                       sum_list (map num_primitive_classes (equivalent_sites (snd x))))
                     [0..<nat (total_capacity (capacity (snd x)))]))"
      unfolding x sub_tile_range [OF ok jl] by simp
  qed
  then have "sub_tile_from_class_loop t n
      (enumerate 0 (take i (sub_tiles t)) @ (i, st) # enumerate (Suc i) (drop (Suc i) (sub_tiles t)))
      = sub_tile_from_class_loop t n ((i, st) # enumerate (Suc i) (drop (Suc i) (sub_tiles t)))"
    by (rule sub_tile_skip)
  moreover have "sub_tile_from_class_loop t n
      ((i, sub_tiles t ! i) # enumerate (Suc i) (drop (Suc i) (sub_tiles t))) = Inr (Some i)"
    using ne lo' hi'
    by (simp add: Let_def bind_res_def vec_read_first st_def sub_tile_range [OF ok i])
  ultimately show ?thesis
    unfolding get_sub_tile_from_class_physical_num_def enumerate_split [OF i]
    by (simp add: st_def)
qed

subsection \<open>Class round trip\<close>

lemmas tile_eval = mk_tile_def mk_sub_tile_def block_A_def block_B_def
  get_sub_tile_from_class_physical_num_def get_sub_tile_cap_from_class_physical_num_def
  get_logical_block_from_class_physical_num_def get_class_logical_num_from_class_physical_num_def
  get_primitives_class_physical_num_def get_tile_num_primitive_classes_def
  num_primitive_classes_def total_capacity_def bind_res_def vec_read_def VTR_ASSERT_def
  enumerate_eq_zip upt_rec Let_def

text \<open>C5 (counterexample). In a tile whose only sub-tile lists block A twice, the flat
  class space has the numbers 0 and 1; for number 1 the scan for the logical block finds
  nothing and the logical class number cannot be computed (the assertion on the start
  number fails), so the number is not reproduced.\<close>

theorem C5_class_round_trip_counterexample:
  "0 \<le> (1::int) \<and> 1 < get_tile_num_primitive_classes duplicate_site_tile
   \<and> get_logical_block_from_class_physical_num duplicate_site_tile 1 = None
   \<and> get_class_logical_num_from_class_physical_num duplicate_site_tile 1 = Inl Assertion_Failed"
  by (simp add: duplicate_site_tile_def tile_eval)

text \<open>C5 (amended). For a tile in which every sub-tile has at least one instance and a
  non-empty list of equivalent sites without repetition, and every physical class number
  \<open>0 \<le> n < get_tile_num_primitive_classes\<close>: the four translators return a sub-tile
  \<open>i\<close> of the tile, a capacity instance of that sub-tile, one of its equivalent sites
  and a logical class number of that block, and \<open>get_primitives_class_physical_num\<close>
  applied to this quadruple returns \<open>n\<close>.\<close>

theorem C5_class_round_trip:
  assumes "class_tile_ok t" and "0 \<le> n" and "n < get_tile_num_primitive_classes t"
  shows "\<exists>i cap lb ln.
           get_sub_tile_from_class_physical_num t n = Inr (Some i)
         \<and> get_sub_tile_cap_from_class_physical_num t n = Inr cap
         \<and> get_logical_block_from_class_physical_num t n = Some lb
         \<and> get_class_logical_num_from_class_physical_num t n = Inr ln
         \<and> i < length (sub_tiles t)
         \<and> 0 \<le> cap \<and> cap < total_capacity (capacity (sub_tiles t ! i))
         \<and> lb \<in> set (equivalent_sites (sub_tiles t ! i))
         \<and> 0 \<le> ln \<and> ln < num_primitive_classes lb
         \<and> get_primitives_class_physical_num t (Some i) (Some lb) cap ln = n"
proof -
  obtain i c k where i: "i < length (sub_tiles t)"
    and c: "c < nat (total_capacity (capacity (sub_tiles t ! i)))"
    and k: "k < length (equivalent_sites (sub_tiles t ! i))"
    and lo: "unit_start (sub_tiles t) i c k \<le> n"
    and hi: "n < unit_start (sub_tiles t) i c (Suc k)"
    using class_unit_exists [OF assms] by blast
  define lb where "lb = equivalent_sites (sub_tiles t ! i) ! k"
  define ln where "ln = n - unit_start (sub_tiles t) i c k"
  note ok = assms(1)
  have gp: "get_primitives_class_physical_num t (Some i) (Some lb) (int c) x
              = unit_start (sub_tiles t) i c k + x" for x
    unfolding lb_def
    by (rule primitives_class_physical_num_closed [OF i c k class_sites_okD(3) [OF ok i]])
  have st: "get_sub_tile_from_class_physical_num t n = Inr (Some i)"
    by (rule sub_tile_from_class_found [OF ok i c k lo hi])
  have cp: "get_sub_tile_cap_from_class_physical_num t n = Inr (int c)"
    by (rule cap_from_class_found [OF ok i c k lo hi])
  have bl: "get_logical_block_from_class_physical_num t n = Some lb"
    unfolding lb_def by (rule block_from_class_found [OF ok i c k lo hi])
  have "0 \<le> class_offset_before (sub_tiles t) i"
    using class_offset_mono [of 0 i "sub_tiles t"] by (simp add: class_offset_before_def)
  then have nn: "0 \<le> unit_start (sub_tiles t) i c k"
    using unit_start_ge_offset [of "sub_tiles t" i c k] by simp
  have lg: "get_class_logical_num_from_class_physical_num t n = Inr ln"
    using nn by (simp add: get_class_logical_num_from_class_physical_num_def st cp bl gp
        bind_res_def VTR_ASSERT_def ln_def)
  have l0: "0 \<le> ln" using lo by (simp add: ln_def)
  have l1: "ln < num_primitive_classes lb"
    using hi unit_start_Suc_site [OF k, where c = c] by (simp add: ln_def lb_def)
  have mem: "lb \<in> set (equivalent_sites (sub_tiles t ! i))" using k by (simp add: lb_def)
  have cap: "int c < total_capacity (capacity (sub_tiles t ! i))" using c by simp
  have rt: "get_primitives_class_physical_num t (Some i) (Some lb) (int c) ln = n"
    by (simp add: gp ln_def)
  show ?thesis using st cp bl lg i cap mem l0 l1 rt by (intro exI [of _ i] exI [of _ "int c"] exI [of _ lb] exI [of _ ln]) simp
qed

theorem C5_class_round_trip_witness:
  "class_tile_ok two_block_tile
   \<and> 0 \<le> (4::int) \<and> 4 < get_tile_num_primitive_classes two_block_tile
   \<and> get_sub_tile_from_class_physical_num two_block_tile 4 = Inr (Some 0)
   \<and> get_sub_tile_cap_from_class_physical_num two_block_tile 4 = Inr 1
   \<and> get_logical_block_from_class_physical_num two_block_tile 4 = Some block_B
   \<and> get_class_logical_num_from_class_physical_num two_block_tile 4 = Inr 0
   \<and> get_primitives_class_physical_num two_block_tile (Some 0) (Some block_B) 1 0 = 4"
proof -
  have ok: "class_tile_ok two_block_tile"
    by (simp add: class_tile_ok_def class_sites_ok_def two_block_tile_def mk_tile_def
        mk_sub_tile_def block_A_def block_B_def)
  have n: "0 \<le> (4::int)" "4 < get_tile_num_primitive_classes two_block_tile"
    by (simp_all add: two_block_tile_def tile_eval)
  have e1: "get_sub_tile_from_class_physical_num two_block_tile 4 = Inr (Some 0)"
    by (simp add: two_block_tile_def tile_eval)
  have e2: "get_sub_tile_cap_from_class_physical_num two_block_tile 4 = Inr 1"
    by (simp add: two_block_tile_def tile_eval)
  have e3: "get_logical_block_from_class_physical_num two_block_tile 4 = Some block_B"
    by (simp add: two_block_tile_def tile_eval)
  have e4: "get_class_logical_num_from_class_physical_num two_block_tile 4 = Inr 0"
    by (simp add: two_block_tile_def tile_eval)
  have "get_primitives_class_physical_num two_block_tile (Some 0) (Some block_B) 1 0 = 4"
    using C5_class_round_trip [OF ok n] unfolding e1 e2 e3 e4 by auto
  then show ?thesis using ok n e1 e2 e3 e4 by simp
qed

end
